theory Spec2Isabelle
  imports Complex_Main "HOL-Library.Sublist"
begin

section \<open>Python strings\<close>

text \<open>
  A Python \<open>str\<close> is a sequence of code points. The model takes a \<open>string\<close>, one
  \<open>char\<close> per code point, so it covers the texts whose code points are below 256
  (ASCII and Latin-1); \<open>length\<close> is Python's \<open>len\<close>.
\<close>

definition SQ :: char where
  "SQ = CHR 0x27"

definition DQ :: char where
  "DQ = CHR 0x22"

definition BSL :: char where
  "BSL = CHR 0x5C"

text \<open>\<open>str.isspace\<close> on one code point below 256.\<close>

definition py_isspace :: "char \<Rightarrow> bool" where
  "py_isspace c = (c \<in> set [CHR 0x09, CHR 0x0A, CHR 0x0B, CHR 0x0C, CHR 0x0D,
                             CHR 0x1C, CHR 0x1D, CHR 0x1E, CHR 0x1F, CHR 0x20,
                             CHR 0x85, CHR 0xA0])"

text \<open>
  \<open>str.lower\<close> on one code point below 256: the letters A to Z (0x41 to 0x5A), and
  the Latin-1 capitals 0xC0 to 0xDE without the multiplication sign 0xD7, go to the
  code point 32 above; every other code point stays. On the bits of a code point
  (\<open>b0\<close> the lowest): a capital has \<open>b6\<close> set and \<open>b5\<close> clear, and its five low
  bits are 1 to 26 for a letter, anything but 23 and 31 for a Latin-1 capital; adding
  32 sets \<open>b5\<close>.
\<close>

definition is_capital :: "char \<Rightarrow> bool" where
  "is_capital c =
     (case c of Char b0 b1 b2 b3 b4 b5 b6 b7 \<Rightarrow>
        b6 \<and> \<not> b5 \<and>
        (if b7 then \<not> (b0 \<and> b1 \<and> b2 \<and> b4)
         else (b0 \<or> b1 \<or> b2 \<or> b3 \<or> b4) \<and> \<not> (b4 \<and> b3 \<and> (b2 \<or> (b1 \<and> b0)))))"

definition py_lower_char :: "char \<Rightarrow> char" where
  "py_lower_char c =
     (if is_capital c
      then (case c of Char b0 b1 b2 b3 b4 b5 b6 b7 \<Rightarrow> Char b0 b1 b2 b3 b4 True b6 b7)
      else c)"

definition py_lower :: "string \<Rightarrow> string" where
  "py_lower s = map py_lower_char s"

text \<open>\<open>s.strip()\<close>: whitespace removed at both ends.\<close>

definition py_strip :: "string \<Rightarrow> string" where
  "py_strip s = rev (dropWhile py_isspace (rev (dropWhile py_isspace s)))"

text \<open>\<open>s.strip(chars)\<close>: the characters of \<open>chars\<close> removed at both ends.\<close>

definition py_strip_chars :: "string \<Rightarrow> string \<Rightarrow> string" where
  "py_strip_chars chars s =
     rev (dropWhile (\<lambda>c. c \<in> set chars) (rev (dropWhile (\<lambda>c. c \<in> set chars) s)))"

definition startswith :: "string \<Rightarrow> string \<Rightarrow> bool" where
  "startswith s p = prefix p s"

definition endswith :: "string \<Rightarrow> string \<Rightarrow> bool" where
  "endswith s p = prefix (rev p) (rev s)"

text \<open>\<open>k in s\<close> on strings: \<open>k\<close> occurs in \<open>s\<close> as a contiguous run.\<close>

fun py_in :: "string \<Rightarrow> string \<Rightarrow> bool" where
  "py_in k [] = (k = [])"
| "py_in k (c # cs) = (prefix k (c # cs) \<or> py_in k cs)"

text \<open>
  \<open>s.replace(old, new)\<close>: the occurrences of \<open>old\<close> are replaced from the left,
  without overlap. With an empty \<open>old\<close> Python puts \<open>new\<close> before every character and
  at the end.
\<close>

function py_replace :: "string \<Rightarrow> string \<Rightarrow> string \<Rightarrow> string" where
  "py_replace old new s =
     (if old = [] then new @ concat (map (\<lambda>c. c # new) s)
      else case s of
             [] \<Rightarrow> []
           | c # cs \<Rightarrow>
               if prefix old s then new @ py_replace old new (drop (length old) s)
               else c # py_replace old new cs)"
  by pat_completeness auto
termination
  by (relation "measure (\<lambda>(old, new, s). length s)") auto

declare py_replace.simps [simp del]

text \<open>\<open>sep.join(parts)\<close>.\<close>

fun py_join :: "string \<Rightarrow> string list \<Rightarrow> string" where
  "py_join sep [] = []"
| "py_join sep [p] = p"
| "py_join sep (p # q # ps) = p @ sep @ py_join sep (q # ps)"

section \<open>Regular expressions: \<open>re.findall(pattern, text, re.IGNORECASE)\<close>\<close>

text \<open>
  The four patterns of \<open>scan_repository\<close> use literals, character classes, \<open>\s\<close>,
  \<open>*\<close>, \<open>+\<close> and \<open>?\<close>, alternation and groups; \<open>*\<close> and \<open>+\<close> are only applied
  to one-character items. The matcher is a backtracking one, as Python's: it returns
  every way to match in the order in which Python's engine tries them (greedy
  repetitions longest first, alternatives left to right), so the head of the list is
  the match Python reports.
\<close>

datatype atom = Lit char | Cls bool "char list" | Space

datatype rx =
    Eps
  | Atom atom
  | Star atom
  | Plus atom
  | Cat rx rx
  | Alt rx rx
  | Opt rx
  | Grp nat rx

text \<open>Under \<open>re.IGNORECASE\<close> a pattern character matches in either case.\<close>

definition ci_eq :: "char \<Rightarrow> char \<Rightarrow> bool" where
  "ci_eq p c = (py_lower_char c = py_lower_char p)"

text \<open>\<open>Cls True cs\<close> is the negated class \<open>[^cs]\<close>.\<close>

fun atom_ok :: "atom \<Rightarrow> char \<Rightarrow> bool" where
  "atom_ok (Lit p) c = ci_eq p c"
| "atom_ok (Cls neg cs) c = (list_ex (\<lambda>p. ci_eq p c) cs \<noteq> neg)"
| "atom_ok Space c = py_isspace c"

text \<open>The texts left after a greedy repetition of one atom, longest run first.\<close>

fun star_m :: "atom \<Rightarrow> string \<Rightarrow> string list" where
  "star_m a [] = [[]]"
| "star_m a (c # cs) = (if atom_ok a c then star_m a cs @ [c # cs] else [c # cs])"

type_synonym caps = "(nat \<times> string) list"

fun rx_m :: "rx \<Rightarrow> caps \<times> string \<Rightarrow> (caps \<times> string) list" where
  "rx_m Eps st = [st]"
| "rx_m (Atom a) (g, s) =
     (case s of [] \<Rightarrow> [] | c # cs \<Rightarrow> if atom_ok a c then [(g, cs)] else [])"
| "rx_m (Star a) (g, s) = map (Pair g) (star_m a s)"
| "rx_m (Plus a) (g, s) =
     (case s of [] \<Rightarrow> []
      | c # cs \<Rightarrow> if atom_ok a c then map (Pair g) (star_m a cs) else [])"
| "rx_m (Cat r1 r2) st = concat (map (rx_m r2) (rx_m r1 st))"
| "rx_m (Alt r1 r2) st = rx_m r1 st @ rx_m r2 st"
| "rx_m (Opt r) st = rx_m r st @ [st]"
| "rx_m (Grp n r) (g, s) =
     map (\<lambda>(g', s'). ((n, take (length s - length s') s) # g', s')) (rx_m r (g, s))"

text \<open>The number of capture groups of a pattern.\<close>

fun ngroups :: "rx \<Rightarrow> nat" where
  "ngroups (Cat r1 r2) = ngroups r1 + ngroups r2"
| "ngroups (Alt r1 r2) = ngroups r1 + ngroups r2"
| "ngroups (Opt r) = ngroups r"
| "ngroups (Grp n r) = Suc (ngroups r)"
| "ngroups r = 0"

text \<open>
  One element of the list \<open>re.findall\<close> returns: a string when the pattern has at
  most one group, a tuple of strings when it has more. A group that took no part in
  the match gives the empty string.
\<close>

datatype rmatch = Str string | Tup "string list"

definition group_of :: "caps \<Rightarrow> nat \<Rightarrow> string" where
  "group_of g i = (case map_of g i of Some s \<Rightarrow> s | None \<Rightarrow> [])"

definition to_result :: "nat \<Rightarrow> caps \<Rightarrow> string \<Rightarrow> rmatch" where
  "to_result n g whole =
     (if n = 0 then Str whole
      else if n = 1 then Str (group_of g 1)
      else Tup (map (group_of g) [1..<Suc n]))"

text \<open>
  \<open>findall_from r k text\<close>: the matches of \<open>r\<close> in \<open>text\<close> from left to right without
  overlap; \<open>k\<close> counts the characters still covered by the last match. (After an
  empty match the search moves on by one character; the patterns of the source have
  no empty match.)
\<close>

fun findall_from :: "rx \<Rightarrow> nat \<Rightarrow> string \<Rightarrow> rmatch list" where
  "findall_from r k [] =
     (if k = 0 then
        (case rx_m r ([], []) of [] \<Rightarrow> [] | (g, rest) # _ \<Rightarrow> [to_result (ngroups r) g []])
      else [])"
| "findall_from r k (c # cs) =
     (if k > 0 then findall_from r (k - 1) cs
      else case rx_m r ([], c # cs) of
             [] \<Rightarrow> findall_from r 0 cs
           | (g, rest) # _ \<Rightarrow>
               (let n = length (c # cs) - length rest
                in to_result (ngroups r) g (take n (c # cs)) # findall_from r (n - 1) cs))"

definition findall :: "rx \<Rightarrow> string \<Rightarrow> rmatch list" where
  "findall r text = findall_from r 0 text"

text \<open>Pattern builders: a literal word, a sequence.\<close>

definition lit :: "string \<Rightarrow> rx" where
  "lit s = foldr (\<lambda>c r. Cat (Atom (Lit c)) r) s Eps"

definition seq :: "rx list \<Rightarrow> rx" where
  "seq rs = foldr Cat rs Eps"

text \<open>\<open>['\"]\<close> and \<open>[^'\"]\<close>.\<close>

definition quote :: atom where
  "quote = Cls False [SQ, DQ]"

definition nonquote :: atom where
  "nonquote = Cls True [SQ, DQ]"

text \<open>
  The patterns of \<open>scan_repository\<close>, in the order of the dictionary.
  \<^verbatim>\<open>load_dataset\s*\(\s*['\"]([^'\"]+)['\"]\<close>
\<close>

definition rx_load_dataset :: rx where
  "rx_load_dataset =
     seq [lit ''load_dataset'', Star Space, Atom (Lit CHR ''(''), Star Space,
          Atom quote, Grp 1 (Plus nonquote), Atom quote]"

text \<open>\<^verbatim>\<open>(?:pd\.read_csv|pandas\.read_csv)\s*\(\s*['\"]([^'\"]+)['\"]\<close>\<close>

definition rx_read_csv :: rx where
  "rx_read_csv =
     seq [Alt (lit ''pd.read_csv'') (lit ''pandas.read_csv''), Star Space,
          Atom (Lit CHR ''(''), Star Space,
          Atom quote, Grp 1 (Plus nonquote), Atom quote]"

text \<open>\<^verbatim>\<open>['\"]([^'\"]*(?:\.csv|\.jsonl|\.parquet|\.zip))['\"]\<close>\<close>

definition rx_dataset_urls :: rx where
  "rx_dataset_urls =
     seq [Atom quote,
          Grp 1 (Cat (Star nonquote)
                     (Alt (lit ''.csv'') (Alt (lit ''.jsonl'')
                          (Alt (lit ''.parquet'') (lit ''.zip''))))),
          Atom quote]"

text \<open>
  \<^verbatim>\<open>['\"]?(https?://)?(?:www\.)?huggingface\.co/datasets/([^'\"\\s]+)['\"]?\<close>
  The pattern is a raw string, so inside the last class \<^verbatim>\<open>\\\<close> is an escaped
  backslash and \<^verbatim>\<open>s\<close> is the letter: the class excludes the two quotes, the
  backslash and the letter s.
\<close>

definition rx_hf_datasets :: rx where
  "rx_hf_datasets =
     seq [Opt (Atom quote),
          Opt (Grp 1 (seq [lit ''http'', Opt (Atom (Lit CHR ''s'')), lit ''://''])),
          Opt (lit ''www.''),
          lit ''huggingface.co/datasets/'',
          Grp 2 (Plus (Cls True [SQ, DQ, BSL, CHR ''s''])),
          Opt (Atom quote)]"

definition patterns :: "(string \<times> rx) list" where
  "patterns =
     [(''huggingface_load_dataset'', rx_load_dataset),
      (''pandas_read_csv'', rx_read_csv),
      (''dataset_urls'', rx_dataset_urls),
      (''huggingface_datasets'', rx_hf_datasets)]"

section \<open>The environment of a run\<close>

text \<open>Exceptions of the source that the model follows.\<close>

datatype py_error = IndexError | ValueError

text \<open>
  A value that \<open>json.loads\<close> returns. An object is the list of its pairs of key and
  value; when a key stands twice in the list, the first pair is the one the
  dictionary holds.
\<close>

datatype pyfloat = Finite rat | PosInf | NegInf | NaN

datatype json =
    JNull
  | JBool bool
  | JInt int
  | JFloat pyfloat
  | JStr string
  | JList "json list"
  | JDict "(string \<times> json) list"

text \<open>
  What \<open>urlopen\<close>, \<open>read\<close> and \<open>json.loads\<close> give for one request: an exception
  (network error, timeout, HTTP error status, a body that is not JSON), or the parsed
  body.
\<close>

datatype http_reply = Failed | Body json

text \<open>
  The parts of a run that the program does not decide:
  \<^item> \<open>clock n\<close>: \<open>datetime.now().isoformat()\<close> at the call number \<open>n\<close>;
  \<^item> \<open>http_get i url\<close>: the reply to the request made for the reference at position
    \<open>i\<close> of the list;
  \<^item> \<open>netloc ref\<close>: \<open>urlparse(ref).netloc\<close> of the standard library, \<open>None\<close> where
    \<open>urlparse\<close> raises \<open>ValueError\<close>;
  \<^item> \<open>py_str v\<close>: \<open>str(v)\<close> for a JSON value that is not a string.
\<close>

record env =
  clock :: "nat \<Rightarrow> string"
  http_get :: "nat \<Rightarrow> string \<Rightarrow> http_reply"
  netloc :: "string \<Rightarrow> string option"
  py_str :: "json \<Rightarrow> string"

section \<open>Scanning\<close>

text \<open>
  One dictionary of \<open>datasets_found\<close>. The four keys of the scan are always present;
  the keys \<open>file\<close> and \<open>notes\<close> are the fields \<open>rel_file\<close> and \<open>licence_notes\<close>; a classification key is \<open>None\<close> until \<open>enrich_with_licences\<close> sets it.
\<close>

record entry =
  type :: string
  reference :: string
  rel_file :: string
  found_at :: string
  licence :: "string option"
  licence_source :: "string option"
  licence_notes :: "string option"
  risk_flag :: "string option"

text \<open>
  The scanner object: \<open>root_dir\<close> as the parts of the path (none for \<open>Path(".")\<close>),
  the list \<open>datasets_found\<close>, and the number of calls of \<open>datetime.now\<close> so far.
\<close>

record scanner =
  root_dir :: "string list"
  datasets_found :: "entry list"
  ticks :: nat

definition init :: "string list \<Rightarrow> scanner" where
  "init root_parts = \<lparr>root_dir = root_parts, datasets_found = [], ticks = 0\<rparr>"

text \<open>
  One path that \<open>rglob("*")\<close> yields: its parts below the root, whether it is a
  directory, and the text that reading it gives (\<open>None\<close> when \<open>open\<close> or \<open>read\<close>
  raises).
\<close>

record fs_node =
  rel_parts :: "string list"
  is_dir :: bool
  content :: "string option"

definition GENERIC_TOKENS :: "string list" where
  "GENERIC_TOKENS = [''name'', ''dataset_name'', ''.csv'', ''.jsonl'', ''.parquet'', ''.zip'']"

definition file_extensions :: "string list" where
  "file_extensions = [''.py'', ''.ipynb'', ''.md'', ''.txt'', ''.yml'', ''.yaml'', ''.json'']"

definition skip_dirs :: "string list" where
  "skip_dirs = [''.git'', ''.passport'', ''node_modules'', ''venv'', ''env'', ''dist'',
                ''build'', ''.ipynb_checkpoints'', ''data'']"

definition skip_files :: "string list" where
  "skip_files = [''scan.py'', ''README.md'', ''.github/workflows/passport.yml'']"

text \<open>
  \<open>Path.suffix\<close>: the last component from its last dot on, when that dot is neither
  the first nor the last character. (Python versions differ on names that start or
  end with a dot; such a name is skipped as hidden, or has a suffix outside
  \<open>file_extensions\<close>, in every version.)
\<close>

definition path_suffix :: "string list \<Rightarrow> string" where
  "path_suffix parts =
     (let name = (if parts = [] then [] else last parts);
          i = length name - Suc (length (takeWhile (\<lambda>c. c \<noteq> CHR ''.'') (rev name)))
      in if CHR ''.'' \<in> set name \<and> 0 < i \<and> Suc i < length name then drop i name else [])"

text \<open>\<open>str(relative_path).replace("\\", "/")\<close>.\<close>

definition rel_str :: "string list \<Rightarrow> string" where
  "rel_str parts = py_replace [BSL] ''/'' (py_join ''/'' parts)"

text \<open>
  Lines 88 to 93: a tuple is reduced to its second group under
  \<open>huggingface_datasets\<close> and joined otherwise; \<open>m[1]\<close> raises \<open>IndexError\<close> on a
  tuple too short.
\<close>

definition normalise :: "string \<Rightarrow> rmatch \<Rightarrow> py_error + string" where
  "normalise pattern_type m =
     (case m of
        Str s \<Rightarrow> Inr s
      | Tup gs \<Rightarrow>
          if pattern_type = ''huggingface_datasets''
          then (if 1 < length gs then Inr (gs ! 1) else Inl IndexError)
          else Inr (concat gs))"

text \<open>The key of line 106: \<^verbatim>\<open>f"{d['type']}:{d['reference'].lower()}"\<close>.\<close>

definition dedup_key :: "entry \<Rightarrow> string" where
  "dedup_key d = type d @ '':'' @ py_lower (reference d)"

text \<open>The test of line 95.\<close>

definition rejected :: "string \<Rightarrow> bool" where
  "rejected ref = (ref = [] \<or> ref \<in> set GENERIC_TOKENS \<or> length ref < 3)"

text \<open>
  The body of the inner loop of \<open>_scan_file\<close> for one match. An exception leaves with
  the scanner as it is then: what was appended before stays.
\<close>

definition scan_match ::
  "env \<Rightarrow> string list \<Rightarrow> string \<Rightarrow> rmatch \<Rightarrow> scanner \<Rightarrow> (py_error \<times> scanner) + scanner" where
  "scan_match env relative_path pattern_type m sc =
     (case normalise pattern_type m of
        Inl e \<Rightarrow> Inl (e, sc)
      | Inr m' \<Rightarrow>
          (let ref = py_strip m'
           in if rejected ref then Inr sc
              else
                (let entry = \<lparr>type = pattern_type, reference = ref,
                              rel_file = rel_str relative_path,
                              found_at = clock env (ticks sc),
                              licence = None, licence_source = None,
                              licence_notes = None, risk_flag = None\<rparr>;
                     sc1 = sc\<lparr>ticks := Suc (ticks sc)\<rparr>;
                     key = dedup_key entry
                 in if list_ex (\<lambda>d. dedup_key d = key) (datasets_found sc1) then Inr sc1
                    else Inr (sc1\<lparr>datasets_found := datasets_found sc1 @ [entry]\<rparr>))))"

text \<open>\<open>for m in matches\<close>.\<close>

fun scan_matches ::
  "env \<Rightarrow> string list \<Rightarrow> string \<Rightarrow> rmatch list \<Rightarrow> scanner \<Rightarrow> (py_error \<times> scanner) + scanner" where
  "scan_matches env relative_path pattern_type [] sc = Inr sc"
| "scan_matches env relative_path pattern_type (m # ms) sc =
     (case scan_match env relative_path pattern_type m sc of
        Inl x \<Rightarrow> Inl x
      | Inr sc' \<Rightarrow> scan_matches env relative_path pattern_type ms sc')"

text \<open>\<open>for pattern_type, pattern in patterns.items()\<close>.\<close>

fun scan_patterns ::
  "env \<Rightarrow> string list \<Rightarrow> string \<Rightarrow> (string \<times> rx) list \<Rightarrow> scanner \<Rightarrow> (py_error \<times> scanner) + scanner" where
  "scan_patterns env relative_path text [] sc = Inr sc"
| "scan_patterns env relative_path text ((pattern_type, pattern) # ps) sc =
     (case scan_matches env relative_path pattern_type (findall pattern text) sc of
        Inl x \<Rightarrow> Inl x
      | Inr sc' \<Rightarrow> scan_patterns env relative_path text ps sc')"

text \<open>\<open>_scan_file\<close>: a file that cannot be read is left out.\<close>

definition scan_file ::
  "env \<Rightarrow> fs_node \<Rightarrow> (string \<times> rx) list \<Rightarrow> scanner \<Rightarrow> (py_error \<times> scanner) + scanner" where
  "scan_file env node pats sc =
     (case content node of
        None \<Rightarrow> Inr sc
      | Some text \<Rightarrow> scan_patterns env (rel_parts node) text pats sc)"

text \<open>The three tests of lines 54 to 63 that let a path through to \<open>_scan_file\<close>.\<close>

definition eligible :: "string list \<Rightarrow> fs_node \<Rightarrow> bool" where
  "eligible root_parts node =
     (\<not> is_dir node
      \<and> py_lower (path_suffix (rel_parts node)) \<in> set file_extensions
      \<and> \<not> list_ex (\<lambda>part. part \<in> set skip_dirs \<or> startswith part ''.'')
                   (root_parts @ rel_parts node)
      \<and> rel_str (rel_parts node) \<notin> set skip_files)"

text \<open>
  The loop of \<open>scan_repository\<close> over the paths. An exception of \<open>_scan_file\<close> is
  caught and printed, and the loop goes on with the scanner as the exception left it.
\<close>

fun scan_nodes :: "env \<Rightarrow> fs_node list \<Rightarrow> scanner \<Rightarrow> scanner" where
  "scan_nodes env [] sc = sc"
| "scan_nodes env (node # nodes) sc =
     (if \<not> eligible (root_dir sc) node then scan_nodes env nodes sc
      else case scan_file env node patterns sc of
             Inl (e, sc') \<Rightarrow> scan_nodes env nodes sc'
           | Inr sc' \<Rightarrow> scan_nodes env nodes sc')"

definition scan_repository :: "env \<Rightarrow> fs_node list \<Rightarrow> scanner \<Rightarrow> scanner" where
  "scan_repository env tree sc = scan_nodes env tree sc"

section \<open>Classification\<close>

text \<open>Truth value of a JSON value in a Python condition.\<close>

fun truthy :: "json \<Rightarrow> bool" where
  "truthy JNull = False"
| "truthy (JBool b) = b"
| "truthy (JInt n) = (n \<noteq> 0)"
| "truthy (JFloat x) = (x \<noteq> Finite 0)"
| "truthy (JStr s) = (s \<noteq> [])"
| "truthy (JList xs) = (xs \<noteq> [])"
| "truthy (JDict kvs) = (kvs \<noteq> [])"

text \<open>\<open>d.get(k)\<close> on a parsed JSON object: \<open>None\<close> for a missing key.\<close>

definition dict_get :: "(string \<times> json) list \<Rightarrow> string \<Rightarrow> json" where
  "dict_get kvs k = (case map_of kvs k of Some v \<Rightarrow> v | None \<Rightarrow> JNull)"

text \<open>\<open>str(lic)\<close>.\<close>

definition str_of :: "env \<Rightarrow> json \<Rightarrow> string" where
  "str_of env v = (case v of JStr s \<Rightarrow> s | _ \<Rightarrow> py_str env v)"

text \<open>
  Lines 171 to 176: the fallback to the first entry of \<open>licenses\<close>, which leaves
  \<open>lic\<close> as it is when nothing fits.
\<close>

definition first_of_licenses :: "json \<Rightarrow> json \<Rightarrow> json" where
  "first_of_licenses ls lic =
     (case ls of
        JList (JDict d0 # _) \<Rightarrow> (case map_of d0 ''name'' of Some v \<Rightarrow> v | None \<Rightarrow> lic)
      | JList (JStr s0 # _) \<Rightarrow> JStr s0
      | _ \<Rightarrow> lic)"

text \<open>
  \<open>_fetch_hf_license\<close>. Every exception inside the \<open>try\<close> ends in \<open>return None\<close>:
  a failed request, and \<open>.get\<close> called on a value that is not a dictionary
  (\<open>AttributeError\<close>).
\<close>

definition fetch_hf_license :: "env \<Rightarrow> nat \<Rightarrow> string \<Rightarrow> string option" where
  "fetch_hf_license env i hf_id =
     (let url = ''https://huggingface.co/api/datasets/'' @ hf_id
      in case http_get env i url of
           Failed \<Rightarrow> None
         | Body data \<Rightarrow>
             (case data of
                JDict kvs \<Rightarrow>
                  (let cd = dict_get kvs ''cardData''
                   in case (if truthy cd then cd else JDict []) of
                        JDict card_d \<Rightarrow>
                          (let lic0 = dict_get card_d ''license'';
                               lic = (if \<not> truthy lic0
                                      then first_of_licenses (dict_get card_d ''licenses'') lic0
                                      else lic0)
                           in if truthy lic then Some (str_of env lic) else None)
                      | _ \<Rightarrow> None)
              | _ \<Rightarrow> None))"

definition looks_like_url :: "string \<Rightarrow> bool" where
  "looks_like_url s = (startswith s ''http://'' \<or> startswith s ''https://'')"

definition permissive_markers :: "string list" where
  "permissive_markers =
     [''cc0'', ''public domain'', ''open government'', ''odc'', ''apache'', ''mit'', ''bsd'']"

definition risk_from_licence :: "string \<Rightarrow> string" where
  "risk_from_licence lic =
     (let lic_l = py_lower lic
      in if list_ex (\<lambda>k. py_in k lic_l) permissive_markers then ''low''
         else if py_in ''cc-by'' lic_l \<or> py_in ''cc by'' lic_l then ''low''
         else if lic_l \<in> set [''unknown'', [], ''none'', ''other''] then ''review''
         else ''review'')"

text \<open>Line 136: the identifier sent to the metadata endpoint.\<close>

definition hf_normalise :: "string \<Rightarrow> string" where
  "hf_normalise hf_id =
     py_strip_chars ''/'' (py_strip (py_replace ''https://huggingface.co/datasets/'' [] hf_id))"

definition data_extensions :: "string list" where
  "data_extensions = [''.csv'', ''.jsonl'', ''.parquet'', ''.zip'']"

type_synonym classification = "string \<times> string \<times> string \<times> string"

text \<open>
  \<open>_classify_reference\<close>: (licence, source, notes, risk flag). The only exception
  that can leave it is the \<open>ValueError\<close> of \<open>urlparse\<close> at line 145, which nothing
  catches.
\<close>

definition classify_reference :: "env \<Rightarrow> nat \<Rightarrow> entry \<Rightarrow> py_error + classification" where
  "classify_reference env i d =
     (let ref = reference d;
          ptype = type d;
          hf_id = (if ptype = ''huggingface_datasets'' then Some ref
                   else if ptype = ''huggingface_load_dataset'' then Some ref
                   else None)
      in if hf_id \<noteq> None \<and> hf_id \<noteq> Some []
         then
           (let hf_id' = hf_normalise (the hf_id);
                lic = fetch_hf_license env i hf_id'
            in if lic \<noteq> None \<and> lic \<noteq> Some []
               then Inr (the lic, ''huggingface_api'',
                         ''License read from HF card for '' @ [SQ] @ hf_id' @ [SQ],
                         risk_from_licence (the lic))
               else Inr (''Unknown'', ''heuristic'',
                         ''No license field found for '' @ [SQ] @ hf_id' @ [SQ], ''review''))
         else if looks_like_url ref
         then
           (case netloc env ref of
              None \<Rightarrow> Inl ValueError
            | Some nl \<Rightarrow>
                (let host = py_lower nl
                 in if py_in ''data.gov'' host \<or> py_in ''europa.eu'' host
                    then Inr (''Open Government'', ''heuristic'',
                              ''Public sector domain '' @ [SQ] @ host @ [SQ], ''low'')
                    else if py_in ''kaggle.com'' host
                    then Inr (''Varies (Kaggle)'', ''heuristic'',
                              ''Check the dataset page license on Kaggle'', ''review'')
                    else if py_in ''huggingface.co'' host
                    then Inr (''Unknown'', ''heuristic'',
                              ''HF link but not a dataset card; inspect manually'', ''review'')
                    else Inr (''Unknown'', ''heuristic'',
                              ''External host '' @ [SQ] @ host @ [SQ], ''review'')))
         else if list_ex (\<lambda>ext. endswith (py_lower ref) ext) data_extensions
         then Inr (''Proprietary/Project-internal'', ''heuristic'',
                   ''Local file path in repo'', ''review'')
         else Inr (''Unknown'', ''heuristic'',
                   ''Pattern matched but no license inference'', ''review''))"

text \<open>The four assignments of the loop body of \<open>enrich_with_licences\<close>.\<close>

definition set_classification :: "classification \<Rightarrow> entry \<Rightarrow> entry" where
  "set_classification c d =
     (case c of (lic, source, note, risk) \<Rightarrow>
        d\<lparr>licence := Some lic, licence_source := Some source,
          licence_notes := Some note, risk_flag := Some risk\<rparr>)"

text \<open>
  The loop of \<open>enrich_with_licences\<close> from position \<open>i\<close> on. An exception of
  \<open>_classify_reference\<close> ends the loop: the entries before it keep their new keys,
  the entry at hand and the later ones stay as they were.
\<close>

fun enrich_from :: "env \<Rightarrow> nat \<Rightarrow> entry list \<Rightarrow> (py_error \<times> entry list) + entry list" where
  "enrich_from env i [] = Inr []"
| "enrich_from env i (d # ds) =
     (case classify_reference env i d of
        Inl e \<Rightarrow> Inl (e, d # ds)
      | Inr c \<Rightarrow>
          (case enrich_from env (Suc i) ds of
             Inl (e, ds') \<Rightarrow> Inl (e, set_classification c d # ds')
           | Inr ds' \<Rightarrow> Inr (set_classification c d # ds')))"

definition enrich_with_licences :: "env \<Rightarrow> scanner \<Rightarrow> (py_error \<times> scanner) + scanner" where
  "enrich_with_licences env sc =
     (case enrich_from env 0 (datasets_found sc) of
        Inl (e, ds) \<Rightarrow> Inl (e, sc\<lparr>datasets_found := ds\<rparr>)
      | Inr ds \<Rightarrow> Inr (sc\<lparr>datasets_found := ds\<rparr>))"

text \<open>
  The first two calls of \<open>main\<close> on a new scanner: the scan, then the enrichment.
  (Writing the report is not part of the model.)
\<close>

definition scan_and_enrich ::
  "env \<Rightarrow> string list \<Rightarrow> fs_node list \<Rightarrow> (py_error \<times> scanner) + scanner" where
  "scan_and_enrich env root_parts tree =
     enrich_with_licences env (scan_repository env tree (init root_parts))"

section \<open>Discovery order\<close>

text \<open>
  The specification's view of the scan: the candidates of a tree in discovery order
  (eligible files in the order of the walk, patterns in the order of the dictionary,
  matches from left to right), each a triple of kind, value and origin file, and the
  rule that the first candidate with a given kind and lowercased value is the one
  kept.
\<close>

type_synonym cand = "string \<times> string \<times> string"

definition ident :: "entry \<Rightarrow> cand" where
  "ident d = (type d, reference d, rel_file d)"

definition cand_key :: "cand \<Rightarrow> string \<times> string" where
  "cand_key c = (fst c, py_lower (fst (snd c)))"

fun keep_first :: "cand list \<Rightarrow> cand list \<Rightarrow> cand list" where
  "keep_first acc [] = acc"
| "keep_first acc (c # cs) =
     (if cand_key c \<in> cand_key ` set acc then keep_first acc cs
      else keep_first (acc @ [c]) cs)"

definition match_cands :: "string \<Rightarrow> string \<Rightarrow> rmatch \<Rightarrow> cand list" where
  "match_cands origin pattern_type m =
     (case normalise pattern_type m of
        Inl e \<Rightarrow> []
      | Inr s \<Rightarrow> if rejected (py_strip s) then [] else [(pattern_type, py_strip s, origin)])"

definition text_cands :: "string \<Rightarrow> string \<Rightarrow> (string \<times> rx) list \<Rightarrow> cand list" where
  "text_cands origin text pats =
     concat (map (\<lambda>(pattern_type, pattern).
                    concat (map (match_cands origin pattern_type) (findall pattern text)))
                 pats)"

definition file_cands :: "fs_node \<Rightarrow> cand list" where
  "file_cands node =
     (case content node of
        None \<Rightarrow> []
      | Some text \<Rightarrow> text_cands (rel_str (rel_parts node)) text patterns)"

definition tree_cands :: "string list \<Rightarrow> fs_node list \<Rightarrow> cand list" where
  "tree_cands root_parts tree = concat (map file_cands (filter (eligible root_parts) tree))"

text \<open>The scanner (or the list) at the end of a call, whether it returned or raised.\<close>

definition final_state :: "(py_error \<times> 'a) + 'a \<Rightarrow> 'a" where
  "final_state r = (case r of Inl (e, sc) \<Rightarrow> sc | Inr sc \<Rightarrow> sc)"

definition kind_value :: "entry \<Rightarrow> string \<times> string" where
  "kind_value d = (type d, reference d)"

text \<open>Invariant of the scan: no kind in the list has a colon.\<close>

definition kinds_ok :: "scanner \<Rightarrow> bool" where
  "kinds_ok sc = (\<forall>d \<in> set (datasets_found sc). CHR '':'' \<notin> set (type d))"

text \<open>The identity fields of an entry, and the pair that the specification dedups on.\<close>

definition identity_fields :: "entry \<Rightarrow> string \<times> string \<times> string \<times> string" where
  "identity_fields d = (type d, reference d, rel_file d, found_at d)"

definition kind_lower :: "entry \<Rightarrow> string \<times> string" where
  "kind_lower d = (type d, py_lower (reference d))"

section \<open>Notions used in the statements\<close>

text \<open>The markers that \<open>_risk_from_licence\<close> looks for, lines 188 and 190.\<close>

definition all_markers :: "string list" where
  "all_markers = permissive_markers @ [''cc-by'', ''cc by'']"

text \<open>The kinds that \<open>_classify_reference\<close> sends to the metadata lookup.\<close>

definition hosted :: "entry \<Rightarrow> bool" where
  "hosted d = (type d = ''huggingface_datasets'' \<or> type d = ''huggingface_load_dataset'')"

definition api_url :: "string \<Rightarrow> string" where
  "api_url hf_id = ''https://huggingface.co/api/datasets/'' @ hf_id"

text \<open>Invariant of the scan: no entry has a classification key yet.\<close>

definition unclassified :: "entry \<Rightarrow> bool" where
  "unclassified d = (licence d = None \<and> licence_source d = None \<and> licence_notes d = None
                     \<and> risk_flag d = None)"

text \<open>Whether a JSON value is an object (a Python \<open>dict\<close>).\<close>

fun is_dict :: "json \<Rightarrow> bool" where
  "is_dict (JDict kvs) = True"
| "is_dict v = False"

section \<open>Concrete runs\<close>

text \<open>
  A stand-in for \<open>urlparse(ref).netloc\<close> on a value that starts with \<open>http://\<close> or
  \<open>https://\<close>, after the documentation of \<open>urllib.parse\<close>: the text between the two
  slashes and the next \<open>/\<close>, \<open>?\<close> or \<open>#\<close>, and \<open>ValueError\<close> when it has one square
  bracket without the other. It is used in the concrete environments below only.
\<close>

definition netloc_model :: "string \<Rightarrow> string option" where
  "netloc_model ref =
     (let after = drop (if startswith ref ''https://'' then 8 else 7) ref;
          nl = takeWhile (\<lambda>c. c \<notin> set ''/?#'') after
      in if (CHR ''['' \<in> set nl) \<noteq> (CHR '']'' \<in> set nl) then None else Some nl)"

text \<open>An environment without network: every request fails.\<close>

definition env_offline :: env where
  "env_offline = \<lparr>clock = (\<lambda>n. ''2024-01-01T00:00:00''), http_get = (\<lambda>i url. Failed),
                   netloc = netloc_model, py_str = (\<lambda>v. ''?'')\<rparr>"

text \<open>A file \<open>src/load.py\<close> with a given text.\<close>

definition one_file :: "string \<Rightarrow> fs_node list" where
  "one_file s = [\<lparr>rel_parts = [''src'', ''load.py''], is_dir = False, content = Some s\<rparr>]"

text \<open>Scenario C: the same dataset URL, quoted, in two files.\<close>

definition text_c :: string where
  "text_c = [DQ] @ ''https://huggingface.co/datasets/org/name'' @ [DQ]"

definition tree_c :: "fs_node list" where
  "tree_c = [\<lparr>rel_parts = [''a.py''], is_dir = False, content = Some text_c\<rparr>,
             \<lparr>rel_parts = [''docs'', ''b.md''], is_dir = False, content = Some text_c\<rparr>]"

text \<open>
  Four loader calls in one file: a denylisted word, a value of two characters, a
  value of blanks, and a dataset name.
\<close>

definition text_filter :: string where
  "text_filter =
     ''load_dataset('' @ [DQ] @ ''name'' @ [DQ] @ '') load_dataset('' @ [DQ] @ ''ab'' @ [DQ]
     @ '') load_dataset('' @ [DQ] @ ''   '' @ [DQ] @ '') load_dataset('' @ [DQ] @ ''squad''
     @ [DQ] @ '')''"

definition entry_squad :: entry where
  "entry_squad = \<lparr>type = ''huggingface_load_dataset'', reference = ''squad'',
                   rel_file = ''src/load.py'', found_at = ''2024-01-01T00:00:00'',
                   licence = None, licence_source = None, licence_notes = None,
                   risk_flag = None\<rparr>"

text \<open>Scenario B: a file whose whole text is \<^verbatim>\<open>pd.read_csv("local/data.csv")\<close>.\<close>

definition text_b :: string where
  "text_b = ''pd.read_csv('' @ [DQ] @ ''local/data.csv'' @ [DQ] @ '')''"

definition local_file_class :: classification where
  "local_file_class =
     (''Proprietary/Project-internal'', ''heuristic'', ''Local file path in repo'', ''review'')"

text \<open>Scenario A: the text \<^verbatim>\<open>load_dataset("squad")\<close>, and a dataset card with a licence.\<close>

definition text_a :: string where
  "text_a = ''load_dataset('' @ [DQ] @ ''squad'' @ [DQ] @ '')''"

definition env_cc_by :: env where
  "env_cc_by = \<lparr>clock = (\<lambda>n. ''2024-01-01T00:00:00''),
                 http_get = (\<lambda>i url. Body (JDict [(''cardData'',
                                                   JDict [(''license'', JStr ''cc-by-4.0'')])])),
                 netloc = netloc_model, py_str = (\<lambda>v. ''?'')\<rparr>"

definition entry_org_name :: entry where
  "entry_org_name = \<lparr>type = ''huggingface_datasets'', reference = ''org/name'',
                      rel_file = ''a.py'', found_at = ''2024-01-01T00:00:00'',
                      licence = None, licence_source = None, licence_notes = None,
                      risk_flag = None\<rparr>"

text \<open>The entry of scenario C after a failed lookup, the entry of scenario A after a
  lookup that gave \<open>cc-by-4.0\<close>.\<close>

definition entry_org_name_unknown :: entry where
  "entry_org_name_unknown =
     entry_org_name\<lparr>licence := Some ''Unknown'', licence_source := Some ''heuristic'',
                     licence_notes := Some (''No license field found for '' @ [SQ]
                                            @ ''org/name'' @ [SQ]),
                     risk_flag := Some ''review''\<rparr>"

definition entry_squad_cc_by :: entry where
  "entry_squad_cc_by =
     entry_squad\<lparr>licence := Some ''cc-by-4.0'', licence_source := Some ''huggingface_api'',
                  licence_notes := Some (''License read from HF card for '' @ [SQ]
                                         @ ''squad'' @ [SQ]),
                  risk_flag := Some ''low''\<rparr>"

text \<open>
  A file with a CSV read from a URL whose host part opens a square bracket and never
  closes it, followed by a quoted local file name:
  \<^verbatim>\<open>pd.read_csv("http://[bad") "local/data.csv"\<close>
\<close>

definition text_bracket :: string where
  "text_bracket = ''pd.read_csv('' @ [DQ] @ ''http://[bad'' @ [DQ] @ '') '' @ [DQ]
                  @ ''local/data.csv'' @ [DQ]"

definition entry_bracket :: entry where
  "entry_bracket = \<lparr>type = ''pandas_read_csv'', reference = ''http://[bad'',
                     rel_file = ''src/load.py'', found_at = ''2024-01-01T00:00:00'',
                     licence = None, licence_source = None, licence_notes = None,
                     risk_flag = None\<rparr>"

definition entry_local :: entry where
  "entry_local = \<lparr>type = ''dataset_urls'', reference = ''local/data.csv'',
                   rel_file = ''src/load.py'', found_at = ''2024-01-01T00:00:00'',
                   licence = None, licence_source = None, licence_notes = None,
                   risk_flag = None\<rparr>"

text \<open>
  Two loader calls whose arguments differ by letter case only, and from the generic
  token \<open>name\<close> by letter case only:
  \<^verbatim>\<open>load_dataset("NAME") load_dataset("Name")\<close>;
  and a quoted \<^verbatim>\<open>".CSV"\<close>.
\<close>

definition text_case :: string where
  "text_case = ''load_dataset('' @ [DQ] @ ''NAME'' @ [DQ] @ '') load_dataset('' @ [DQ]
               @ ''Name'' @ [DQ] @ '')''"

definition text_upper :: string where
  "text_upper = [DQ] @ ''.CSV'' @ [DQ]"


section \<open>Strings and patterns\<close>

text \<open>The bit tests of \<open>is_capital\<close> and \<open>py_lower_char\<close> against the code points.\<close>

lemma is_capital_range:
  "is_capital c \<longleftrightarrow>
     (65 \<le> (of_char c :: nat) \<and> (of_char c :: nat) \<le> 90)
     \<or> (192 \<le> (of_char c :: nat) \<and> (of_char c :: nat) \<le> 222 \<and> (of_char c :: nat) \<noteq> 215)"
  by (cases c) (auto simp: is_capital_def)

lemma py_lower_char_plus:
  "is_capital c \<Longrightarrow> of_char (py_lower_char c) = (of_char c :: nat) + 32"
  by (cases c) (auto simp: is_capital_def py_lower_char_def)

lemma py_in_iff: "py_in k s \<longleftrightarrow> (\<exists>pre post. s = pre @ k @ post)"
proof (induction s)
  case Nil
  then show ?case by auto
next
  case (Cons c cs)
  show ?case
  proof
    assume "py_in k (c # cs)"
    then consider "prefix k (c # cs)" | "py_in k cs" by auto
    then show "\<exists>pre post. c # cs = pre @ k @ post"
    proof cases
      case 1
      then obtain post where "c # cs = k @ post" by (auto simp: prefix_def)
      then have "c # cs = [] @ k @ post" by simp
      then show ?thesis by blast
    next
      case 2
      then obtain pre post where "cs = pre @ k @ post" using Cons.IH by blast
      then have "c # cs = (c # pre) @ k @ post" by simp
      then show ?thesis by blast
    qed
  next
    assume "\<exists>pre post. c # cs = pre @ k @ post"
    then obtain pre post where e: "c # cs = pre @ k @ post" by blast
    show "py_in k (c # cs)"
    proof (cases pre)
      case Nil
      then have "prefix k (c # cs)" using e by (simp add: prefix_def)
      then show ?thesis by simp
    next
      case (Cons p pre')
      then have "cs = pre' @ k @ post" using e by simp
      then have "py_in k cs" using Cons.IH by blast
      then show ?thesis by simp
    qed
  qed
qed

text \<open>A key of line 106 determines kind and lowercased value when no kind has a colon.\<close>

lemma key_inj:
  assumes "CHR '':'' \<notin> set t1" "CHR '':'' \<notin> set t2"
  shows "t1 @ '':'' @ r1 = t2 @ '':'' @ r2 \<longleftrightarrow> t1 = t2 \<and> r1 = r2"
  using assms
proof (induction t1 arbitrary: t2)
  case Nil
  then show ?case by (cases t2) auto
next
  case (Cons a t1)
  then show ?case by (cases t2) auto
qed

text \<open>Every element of a \<open>findall\<close> list has the shape that the group count fixes.\<close>

lemma findall_from_Nil_shape:
  "findall_from r k [] = [] \<or> (\<exists>g. findall_from r k [] = [to_result (ngroups r) g []])"
  by (cases "rx_m r ([], [])") (auto split: prod.splits)

lemma findall_from_Cons_shape:
  "findall_from r k (c # cs) = findall_from r (k - 1) cs
   \<or> findall_from r k (c # cs) = findall_from r 0 cs
   \<or> (\<exists>g w n. findall_from r k (c # cs) = to_result (ngroups r) g w # findall_from r n cs)"
proof (cases "k > 0")
  case True
  then show ?thesis by simp
next
  case k0: False
  show ?thesis
  proof (cases "rx_m r ([], c # cs)")
    case Nil
    with k0 show ?thesis by simp
  next
    case (Cons p ps)
    obtain g rest where p: "p = (g, rest)" by (cases p)
    have "findall_from r k (c # cs) =
            to_result (ngroups r) g (take (length (c # cs) - length rest) (c # cs))
              # findall_from r (length (c # cs) - length rest - 1) cs"
      using k0 Cons p by (simp add: Let_def)
    then show ?thesis by blast
  qed
qed

lemma findall_from_shape:
  "m \<in> set (findall_from r k s) \<Longrightarrow> \<exists>g w. m = to_result (ngroups r) g w"
proof (induction s arbitrary: k)
  case Nil
  from findall_from_Nil_shape[of r k] Nil.prems
  have "\<exists>g. m = to_result (ngroups r) g []"
    by (auto simp del: findall_from.simps)
  then show ?case by blast
next
  case (Cons c cs)
  from findall_from_Cons_shape[of r k c cs] Cons.prems
  have "(\<exists>n. m \<in> set (findall_from r n cs)) \<or> (\<exists>g w. m = to_result (ngroups r) g w)"
    by (auto simp del: findall_from.simps)
  with Cons.IH show ?case by blast
qed

lemma findall_two_groups:
  assumes "m \<in> set (findall r s)" "ngroups r = 2"
  shows "\<exists>a b. m = Tup [a, b]"
proof -
  obtain g w where "m = to_result 2 g w"
    using findall_from_shape assms unfolding findall_def by metis
  then show ?thesis by (simp add: to_result_def upt_rec)
qed

lemma findall_one_group:
  assumes "m \<in> set (findall r s)" "ngroups r = 1"
  shows "\<exists>a. m = Str a"
proof -
  obtain g w where "m = to_result 1 g w"
    using findall_from_shape assms unfolding findall_def by metis
  then show ?thesis by (simp add: to_result_def)
qed

lemma ngroups_patterns:
  "ngroups rx_load_dataset = 1" "ngroups rx_read_csv = 1"
  "ngroups rx_dataset_urls = 1" "ngroups rx_hf_datasets = 2"
  by code_simp+

section \<open>The scan keeps the first candidate of each key\<close>

text \<open>With the patterns of the source no match makes line 91 raise.\<close>

lemma patterns_normalise:
  assumes "(t, r) \<in> set patterns" "m \<in> set (findall r s)"
  shows "\<exists>v. normalise t m = Inr v"
proof -
  from assms(1) consider
      "t = ''huggingface_load_dataset''" "r = rx_load_dataset"
    | "t = ''pandas_read_csv''" "r = rx_read_csv"
    | "t = ''dataset_urls''" "r = rx_dataset_urls"
    | "t = ''huggingface_datasets''" "r = rx_hf_datasets"
    by (auto simp: patterns_def)
  then show ?thesis
  proof cases
    case 1
    with findall_one_group[OF assms(2)] ngroups_patterns show ?thesis
      by (auto simp: normalise_def)
  next
    case 2
    with findall_one_group[OF assms(2)] ngroups_patterns show ?thesis
      by (auto simp: normalise_def)
  next
    case 3
    with findall_one_group[OF assms(2)] ngroups_patterns show ?thesis
      by (auto simp: normalise_def)
  next
    case 4
    with findall_two_groups[OF assms(2)] ngroups_patterns show ?thesis
      by (auto simp: normalise_def)
  qed
qed

lemma patterns_no_colon:
  "(t, r) \<in> set patterns \<Longrightarrow> CHR '':'' \<notin> set t"
  by (auto simp: patterns_def)

lemma key_present_iff:
  assumes "kinds_ok sc" "CHR '':'' \<notin> set t"
  shows "list_ex (\<lambda>d. dedup_key d = t @ '':'' @ py_lower v) (datasets_found sc)
         \<longleftrightarrow> cand_key (t, v, f) \<in> cand_key ` set (map ident (datasets_found sc))"
proof -
  have "\<And>d. d \<in> set (datasets_found sc) \<Longrightarrow>
          (dedup_key d = t @ '':'' @ py_lower v) = (cand_key (t, v, f) = cand_key (ident d))"
    using assms key_inj[of _ t]
    by (auto simp: kinds_ok_def dedup_key_def cand_key_def ident_def)
  then show ?thesis
    by (simp add: list_ex_iff image_iff)
qed

lemma scan_match_refines:
  assumes "kinds_ok sc" "CHR '':'' \<notin> set t" "normalise t m = Inr v"
  shows "\<exists>sc'. scan_match env rel t m sc = Inr sc'
           \<and> kinds_ok sc' \<and> root_dir sc' = root_dir sc
           \<and> map ident (datasets_found sc') =
               keep_first (map ident (datasets_found sc)) (match_cands (rel_str rel) t m)"
proof (cases "rejected (py_strip v)")
  case True
  with assms show ?thesis by (simp add: scan_match_def match_cands_def)
next
  case False
  let ?sc1 = "sc\<lparr>ticks := Suc (ticks sc)\<rparr>"
  have k1: "kinds_ok ?sc1" using assms(1) by (simp add: kinds_ok_def)
  have f1: "datasets_found ?sc1 = datasets_found sc" by simp
  show ?thesis
  proof (cases "list_ex (\<lambda>d. dedup_key d = t @ '':'' @ py_lower (py_strip v)) (datasets_found sc)")
    case True
    then have "cand_key (t, py_strip v, rel_str rel) \<in> cand_key ` set (map ident (datasets_found sc))"
      using key_present_iff[OF assms(1,2)] by blast
    with True False assms k1 show ?thesis
      by (simp add: scan_match_def match_cands_def Let_def dedup_key_def)
  next
    case nokey: False
    then have "cand_key (t, py_strip v, rel_str rel) \<notin> cand_key ` set (map ident (datasets_found sc))"
      using key_present_iff[OF assms(1,2)] by blast
    with nokey False assms show ?thesis
      by (simp add: scan_match_def match_cands_def Let_def dedup_key_def kinds_ok_def ident_def)
  qed
qed

lemma keep_first_append: "keep_first acc (xs @ ys) = keep_first (keep_first acc xs) ys"
  by (induction xs arbitrary: acc) auto

lemma scan_matches_refines:
  assumes "kinds_ok sc" "CHR '':'' \<notin> set t" "\<forall>m \<in> set ms. \<exists>v. normalise t m = Inr v"
  shows "\<exists>sc'. scan_matches env rel t ms sc = Inr sc'
           \<and> kinds_ok sc' \<and> root_dir sc' = root_dir sc
           \<and> map ident (datasets_found sc') =
               keep_first (map ident (datasets_found sc))
                          (concat (map (match_cands (rel_str rel) t) ms))"
  using assms
proof (induction ms arbitrary: sc)
  case Nil
  then show ?case by simp
next
  case (Cons m ms)
  from Cons.prems obtain v where v: "normalise t m = Inr v" by auto
  from scan_match_refines[OF Cons.prems(1,2) v, of env rel]
  obtain sc1 where s1: "scan_match env rel t m sc = Inr sc1" "kinds_ok sc1"
      "root_dir sc1 = root_dir sc"
      "map ident (datasets_found sc1) =
         keep_first (map ident (datasets_found sc)) (match_cands (rel_str rel) t m)"
    by blast
  from Cons.IH[OF s1(2) Cons.prems(2)] Cons.prems(3)
  obtain sc2 where s2: "scan_matches env rel t ms sc1 = Inr sc2" "kinds_ok sc2"
      "root_dir sc2 = root_dir sc1"
      "map ident (datasets_found sc2) =
         keep_first (map ident (datasets_found sc1))
                    (concat (map (match_cands (rel_str rel) t) ms))"
    by auto
  show ?case using s1 s2 by (simp add: keep_first_append)
qed

lemma scan_patterns_refines:
  assumes "kinds_ok sc" "set pats \<subseteq> set patterns"
  shows "\<exists>sc'. scan_patterns env rel s pats sc = Inr sc'
           \<and> kinds_ok sc' \<and> root_dir sc' = root_dir sc
           \<and> map ident (datasets_found sc') =
               keep_first (map ident (datasets_found sc)) (text_cands (rel_str rel) s pats)"
  using assms
proof (induction pats arbitrary: sc)
  case Nil
  then show ?case by (simp add: text_cands_def)
next
  case (Cons p pats)
  obtain t r where p: "p = (t, r)" by (cases p)
  with Cons.prems have mem: "(t, r) \<in> set patterns" by simp
  have nc: "CHR '':'' \<notin> set t" using patterns_no_colon[OF mem] .
  have ok: "\<forall>m \<in> set (findall r s). \<exists>v. normalise t m = Inr v"
    using patterns_normalise[OF mem] by blast
  from scan_matches_refines[OF Cons.prems(1) nc ok, of env rel]
  obtain sc1 where s1: "scan_matches env rel t (findall r s) sc = Inr sc1" "kinds_ok sc1"
      "root_dir sc1 = root_dir sc"
      "map ident (datasets_found sc1) =
         keep_first (map ident (datasets_found sc))
                    (concat (map (match_cands (rel_str rel) t) (findall r s)))"
    by blast
  from Cons.prems have sub: "set pats \<subseteq> set patterns" by simp
  from Cons.IH[OF s1(2) sub]
  obtain sc2 where s2: "scan_patterns env rel s pats sc1 = Inr sc2" "kinds_ok sc2"
      "root_dir sc2 = root_dir sc1"
      "map ident (datasets_found sc2) =
         keep_first (map ident (datasets_found sc1)) (text_cands (rel_str rel) s pats)"
    by blast
  show ?case using s1 s2 p by (simp add: text_cands_def keep_first_append)
qed

lemma scan_file_refines:
  assumes "kinds_ok sc"
  shows "\<exists>sc'. scan_file env node patterns sc = Inr sc'
           \<and> kinds_ok sc' \<and> root_dir sc' = root_dir sc
           \<and> map ident (datasets_found sc') =
               keep_first (map ident (datasets_found sc)) (file_cands node)"
proof (cases "content node")
  case None
  with assms show ?thesis by (simp add: scan_file_def file_cands_def)
next
  case (Some s)
  with scan_patterns_refines[OF assms, of patterns env "rel_parts node" s]
  show ?thesis by (simp add: scan_file_def file_cands_def)
qed

lemma scan_nodes_refines:
  assumes "kinds_ok sc"
  shows "kinds_ok (scan_nodes env tree sc)
         \<and> root_dir (scan_nodes env tree sc) = root_dir sc
         \<and> map ident (datasets_found (scan_nodes env tree sc)) =
             keep_first (map ident (datasets_found sc)) (tree_cands (root_dir sc) tree)"
  using assms
proof (induction tree arbitrary: sc)
  case Nil
  then show ?case by (simp add: tree_cands_def)
next
  case (Cons node tree)
  show ?case
  proof (cases "eligible (root_dir sc) node")
    case False
    with Cons show ?thesis by (simp add: tree_cands_def)
  next
    case True
    from scan_file_refines[OF Cons.prems, of env node]
    obtain sc1 where s1: "scan_file env node patterns sc = Inr sc1" "kinds_ok sc1"
        "root_dir sc1 = root_dir sc"
        "map ident (datasets_found sc1) =
           keep_first (map ident (datasets_found sc)) (file_cands node)"
      by blast
    from Cons.IH[OF s1(2)] s1 True show ?thesis
      by (simp add: tree_cands_def keep_first_append)
  qed
qed

lemma scan_repository_refines:
  "map ident (datasets_found (scan_repository env tree (init root_parts))) =
     keep_first [] (tree_cands root_parts tree)"
  using scan_nodes_refines[of "init root_parts" env tree]
  by (simp add: scan_repository_def init_def kinds_ok_def)

section \<open>Facts about keeping the first candidate\<close>

lemma keep_first_distinct:
  "distinct (map cand_key acc) \<Longrightarrow> distinct (map cand_key (keep_first acc cs))"
  by (induction cs arbitrary: acc) auto

lemma keep_first_acc: "set acc \<subseteq> set (keep_first acc cs)"
proof (induction cs arbitrary: acc)
  case Nil
  then show ?case by simp
next
  case (Cons c cs)
  have "set acc \<subseteq> set (keep_first acc cs)" "set (acc @ [c]) \<subseteq> set (keep_first (acc @ [c]) cs)"
    using Cons.IH by blast+
  then show ?case by auto
qed

lemma keep_first_subset: "set (keep_first acc cs) \<subseteq> set acc \<union> set cs"
proof (induction cs arbitrary: acc)
  case Nil
  then show ?case by simp
next
  case (Cons c cs)
  have "set (keep_first acc cs) \<subseteq> set acc \<union> set cs"
       "set (keep_first (acc @ [c]) cs) \<subseteq> set (acc @ [c]) \<union> set cs"
    using Cons.IH by blast+
  then show ?case by auto
qed

lemma keep_first_covers:
  "c \<in> set cs \<Longrightarrow> cand_key c \<in> cand_key ` set (keep_first acc cs)"
proof (induction cs arbitrary: acc)
  case Nil
  then show ?case by simp
next
  case (Cons x cs)
  show ?case
  proof (cases "c = x")
    case True
    show ?thesis
    proof (cases "cand_key x \<in> cand_key ` set acc")
      case True
      then have "cand_key x \<in> cand_key ` set (keep_first acc cs)"
        using keep_first_acc[of acc cs] by blast
      with True \<open>c = x\<close> show ?thesis by simp
    next
      case False
      have "x \<in> set (keep_first (acc @ [x]) cs)"
        using keep_first_acc[of "acc @ [x]" cs] by auto
      with False \<open>c = x\<close> show ?thesis by auto
    qed
  next
    case False
    with Cons.prems have "c \<in> set cs" by simp
    from Cons.IH[OF this] show ?thesis by simp
  qed
qed

text \<open>
  An element of the result that was not in the accumulator has a key new to the
  accumulator, and stands in the input after candidates of other keys only.
\<close>

lemma keep_first_first:
  "c \<in> set (keep_first acc cs) \<Longrightarrow> c \<notin> set acc \<Longrightarrow>
     cand_key c \<notin> cand_key ` set acc
     \<and> (\<exists>pre post. cs = pre @ c # post \<and> (\<forall>p \<in> set pre. cand_key p \<noteq> cand_key c))"
proof (induction cs arbitrary: acc)
  case Nil
  then show ?case by simp
next
  case (Cons x cs)
  show ?case
  proof (cases "cand_key x \<in> cand_key ` set acc")
    case True
    with Cons.prems have "c \<in> set (keep_first acc cs)" by simp
    from Cons.IH[OF this Cons.prems(2)]
    obtain pre post where pp: "cand_key c \<notin> cand_key ` set acc" "cs = pre @ c # post"
        "\<forall>p \<in> set pre. cand_key p \<noteq> cand_key c"
      by blast
    from True pp(1) have ne: "cand_key x \<noteq> cand_key c" by auto
    have "x # cs = (x # pre) @ c # post" using pp(2) by simp
    moreover have "\<forall>p \<in> set (x # pre). cand_key p \<noteq> cand_key c" using pp(3) ne by simp
    ultimately show ?thesis using pp(1) by blast
  next
    case False
    with Cons.prems have m: "c \<in> set (keep_first (acc @ [x]) cs)" by simp
    show ?thesis
    proof (cases "c = x")
      case True
      have "x # cs = [] @ c # cs" using True by simp
      moreover have "\<forall>p \<in> set ([] :: cand list). cand_key p \<noteq> cand_key c" by simp
      ultimately show ?thesis using False True by blast
    next
      case neq: False
      with Cons.prems(2) have "c \<notin> set (acc @ [x])" by simp
      from Cons.IH[OF m this]
      obtain pre post where pp: "cand_key c \<notin> cand_key ` set (acc @ [x])" "cs = pre @ c # post"
          "\<forall>p \<in> set pre. cand_key p \<noteq> cand_key c"
        by blast
      from pp(1) have k: "cand_key c \<notin> cand_key ` set acc" "cand_key x \<noteq> cand_key c" by auto
      have "x # cs = (x # pre) @ c # post" using pp(2) by simp
      moreover have "\<forall>p \<in> set (x # pre). cand_key p \<noteq> cand_key c" using pp(3) k(2) by simp
      ultimately show ?thesis using k(1) by blast
    qed
  qed
qed

section \<open>Facts about the enrichment pass\<close>

lemma set_classification_identity:
  "identity_fields (set_classification c d) = identity_fields d"
  by (cases c) (simp add: set_classification_def identity_fields_def)

lemma enrich_from_identity:
  "map identity_fields (final_state (enrich_from env i ds)) = map identity_fields ds"
proof (induction ds arbitrary: i)
  case Nil
  then show ?case by (simp add: final_state_def)
next
  case (Cons d ds)
  show ?case
  proof (cases "classify_reference env i d")
    case (Inl e)
    then show ?thesis by (simp add: final_state_def)
  next
    case (Inr c)
    show ?thesis
    proof (cases "enrich_from env (Suc i) ds")
      case (Inl x)
      obtain e ds' where x: "x = (e, ds')" by (cases x)
      from Cons.IH[of "Suc i"] Inl x have "map identity_fields ds' = map identity_fields ds"
        by (simp add: final_state_def)
      with Inr Inl x show ?thesis
        by (simp add: final_state_def set_classification_identity)
    next
      case r: (Inr ds')
      from Cons.IH[of "Suc i"] r have "map identity_fields ds' = map identity_fields ds"
        by (simp add: final_state_def)
      with Inr r show ?thesis
        by (simp add: final_state_def set_classification_identity)
    qed
  qed
qed

lemma enrich_with_licences_found:
  "datasets_found (final_state (enrich_with_licences env sc)) =
     final_state (enrich_from env 0 (datasets_found sc))"
  by (cases "enrich_from env 0 (datasets_found sc)")
     (auto simp: enrich_with_licences_def final_state_def split: prod.splits)

lemma enrich_with_licences_identity:
  "map identity_fields (datasets_found (final_state (enrich_with_licences env sc))) =
     map identity_fields (datasets_found sc)"
  by (simp add: enrich_with_licences_found enrich_from_identity)

lemma ident_from_identity:
  "map identity_fields xs = map identity_fields ys \<Longrightarrow> map ident xs = map ident ys"
proof -
  assume h: "map identity_fields xs = map identity_fields ys"
  have "map ident xs = map ((\<lambda>(t, r, f, a). (t, r, f)) \<circ> identity_fields) xs"
    by (simp add: ident_def identity_fields_def comp_def)
  also have "\<dots> = map (\<lambda>(t, r, f, a). (t, r, f)) (map identity_fields xs)" by simp
  also have "\<dots> = map (\<lambda>(t, r, f, a). (t, r, f)) (map identity_fields ys)" using h by simp
  also have "\<dots> = map ident ys" by (simp add: ident_def identity_fields_def comp_def)
  finally show ?thesis .
qed

lemma scan_and_enrich_refines:
  "map ident (datasets_found (final_state (scan_and_enrich env root_parts tree))) =
     keep_first [] (tree_cands root_parts tree)"
  using ident_from_identity[OF enrich_with_licences_identity]
    scan_repository_refines[of env tree root_parts]
  by (simp add: scan_and_enrich_def)

lemma kind_lower_ident: "map kind_lower ds = map cand_key (map ident ds)"
  by (simp add: kind_lower_def cand_key_def ident_def)

section \<open>Claims on the scan\<close>

text \<open>
  C2. For every scanned tree, no two references of the final list, before and after
  enrichment, share the pair of kind and lowercased value. The list is, on its
  identity triples, the candidates of the tree in discovery order with only the first
  candidate of each pair kept: every reference of the list stands in the candidates
  after candidates of other pairs only, so its origin file is the first file where the
  pair was found.
\<close>

theorem dedup_first_occurrence_wins:
  "distinct (map kind_lower (datasets_found (scan_repository env tree (init root_parts))))
   \<and> distinct (map kind_lower
                  (datasets_found (final_state (scan_and_enrich env root_parts tree))))
   \<and> map ident (datasets_found (final_state (scan_and_enrich env root_parts tree))) =
       keep_first [] (tree_cands root_parts tree)
   \<and> (\<forall>d \<in> set (datasets_found (final_state (scan_and_enrich env root_parts tree))).
         \<exists>pre post. tree_cands root_parts tree = pre @ ident d # post
                    \<and> (\<forall>p \<in> set pre. cand_key p \<noteq> cand_key (ident d)))"
proof -
  let ?cs = "tree_cands root_parts tree"
  let ?scan = "datasets_found (scan_repository env tree (init root_parts))"
  let ?out = "datasets_found (final_state (scan_and_enrich env root_parts tree))"
  have d0: "distinct (map cand_key (keep_first [] ?cs))"
    by (rule keep_first_distinct) simp
  have a: "distinct (map kind_lower ?scan)"
    using d0 by (simp only: kind_lower_ident scan_repository_refines)
  have b: "distinct (map kind_lower ?out)"
    using d0 by (simp only: kind_lower_ident scan_and_enrich_refines)
  have c: "map ident ?out = keep_first [] ?cs"
    by (rule scan_and_enrich_refines)
  have e: "\<exists>pre post. ?cs = pre @ ident d # post
                    \<and> (\<forall>p \<in> set pre. cand_key p \<noteq> cand_key (ident d))"
    if "d \<in> set ?out" for d
  proof -
    from that have "ident d \<in> set (map ident ?out)" by simp
    then have "ident d \<in> set (keep_first [] ?cs)" by (simp only: c)
    from keep_first_first[OF this] show ?thesis by simp
  qed
  from a b c e show ?thesis by blast
qed

theorem dedup_first_occurrence_wins_witness:
  "tree_cands [] tree_c = [(''huggingface_datasets'', ''org/name'', ''a.py''),
                           (''huggingface_datasets'', ''org/name'', ''docs/b.md'')]
   \<and> map ident (datasets_found (final_state (scan_and_enrich env_offline [] tree_c))) =
       [(''huggingface_datasets'', ''org/name'', ''a.py'')]
   \<and> distinct (map kind_lower
                  (datasets_found (final_state (scan_and_enrich env_offline [] tree_c))))"
proof -
  have cs: "tree_cands [] tree_c = [(''huggingface_datasets'', ''org/name'', ''a.py''),
                                    (''huggingface_datasets'', ''org/name'', ''docs/b.md'')]"
    by code_simp
  have kf: "keep_first [] [(''huggingface_datasets'', ''org/name'', ''a.py''),
                           (''huggingface_datasets'', ''org/name'', ''docs/b.md'')] =
            [(''huggingface_datasets'', ''org/name'', ''a.py'')]"
    by code_simp
  from dedup_first_occurrence_wins[of env_offline tree_c "[]"] cs kf show ?thesis
    by simp
qed

lemma tree_cands_pass:
  assumes "c \<in> set (tree_cands root_parts tree)"
  shows "\<not> rejected (fst (snd c))"
  using assms
  by (auto simp: tree_cands_def file_cands_def text_cands_def match_cands_def
           split: option.splits sum.splits if_splits)

text \<open>
  C7. Every reference of the final list, before and after enrichment, has a value
  that is not empty, has at least 3 characters and is not one of the generic tokens;
  a match whose trimmed value fails one of the three tests leaves the scanner as it
  was.
\<close>

theorem values_pass_filter:
  "(\<forall>d \<in> set (datasets_found (scan_repository env tree (init root_parts))).
      reference d \<noteq> [] \<and> 3 \<le> length (reference d) \<and> reference d \<notin> set GENERIC_TOKENS)
   \<and> (\<forall>d \<in> set (datasets_found (final_state (scan_and_enrich env root_parts tree))).
      reference d \<noteq> [] \<and> 3 \<le> length (reference d) \<and> reference d \<notin> set GENERIC_TOKENS)
   \<and> (normalise t m = Inr v
        \<and> (py_strip v = [] \<or> py_strip v \<in> set GENERIC_TOKENS \<or> length (py_strip v) < 3)
      \<longrightarrow> scan_match env rel t m sc = Inr sc)"
proof -
  have p: "reference d \<noteq> [] \<and> 3 \<le> length (reference d) \<and> reference d \<notin> set GENERIC_TOKENS"
    if "ident d \<in> set (keep_first [] (tree_cands root_parts tree))" for d
  proof -
    from that keep_first_subset[of "[]" "tree_cands root_parts tree"]
    have "ident d \<in> set (tree_cands root_parts tree)" by auto
    from tree_cands_pass[OF this] show ?thesis
      by (auto simp: rejected_def ident_def)
  qed
  have a: "reference d \<noteq> [] \<and> 3 \<le> length (reference d) \<and> reference d \<notin> set GENERIC_TOKENS"
    if "d \<in> set (datasets_found (scan_repository env tree (init root_parts)))" for d
  proof -
    from that have "ident d \<in> set (map ident (datasets_found (scan_repository env tree (init root_parts))))"
      by simp
    then have "ident d \<in> set (keep_first [] (tree_cands root_parts tree))"
      by (simp only: scan_repository_refines)
    then show ?thesis by (rule p)
  qed
  have b: "reference d \<noteq> [] \<and> 3 \<le> length (reference d) \<and> reference d \<notin> set GENERIC_TOKENS"
    if "d \<in> set (datasets_found (final_state (scan_and_enrich env root_parts tree)))" for d
  proof -
    from that have "ident d \<in> set (map ident (datasets_found (final_state (scan_and_enrich env root_parts tree))))"
      by simp
    then have "ident d \<in> set (keep_first [] (tree_cands root_parts tree))"
      by (simp only: scan_and_enrich_refines)
    then show ?thesis by (rule p)
  qed
  have c: "scan_match env rel t m sc = Inr sc"
    if "normalise t m = Inr v"
       "py_strip v = [] \<or> py_strip v \<in> set GENERIC_TOKENS \<or> length (py_strip v) < 3"
    using that by (simp add: scan_match_def rejected_def)
  from a b c show ?thesis by blast
qed

theorem values_pass_filter_witness:
  "datasets_found (scan_repository env_offline (one_file text_filter) (init [])) = [entry_squad]
   \<and> reference entry_squad \<noteq> [] \<and> 3 \<le> length (reference entry_squad)
   \<and> reference entry_squad \<notin> set GENERIC_TOKENS
   \<and> normalise ''huggingface_load_dataset'' (Str ''name'') = Inr ''name''
   \<and> py_strip ''name'' \<in> set GENERIC_TOKENS
   \<and> scan_match env_offline [''src'', ''load.py''] ''huggingface_load_dataset'' (Str ''name'')
        (init []) = Inr (init [])"
proof -
  have f: "datasets_found (scan_repository env_offline (one_file text_filter) (init [])) =
             [entry_squad]"
    by code_simp
  have n: "normalise ''huggingface_load_dataset'' (Str ''name'') = Inr ''name''"
    by code_simp
  have g: "py_strip ''name'' \<in> set GENERIC_TOKENS"
    by code_simp
  from values_pass_filter[of env_offline "one_file text_filter" "[]"
         "''huggingface_load_dataset''" "Str ''name''" "''name''"
         "[''src'', ''load.py'']" "init []"] f n g
  show ?thesis by simp
qed

section \<open>Scenario B\<close>

lemma findall_text_b:
  "findall rx_load_dataset text_b = []"
  "findall rx_read_csv text_b = [Str ''local/data.csv'']"
  "findall rx_dataset_urls text_b = [Str ''local/data.csv'']"
  "findall rx_hf_datasets text_b = []"
  by code_simp+

lemma local_data_csv_facts:
  "py_strip ''local/data.csv'' = ''local/data.csv''"
  "py_lower ''local/data.csv'' = ''local/data.csv''"
  "rejected ''local/data.csv'' = False"
  "looks_like_url ''local/data.csv'' = False"
  "list_ex (\<lambda>ext. endswith ''local/data.csv'' ext) data_extensions = True"
  by code_simp+

lemma classify_local_data_csv:
  assumes "reference d = ''local/data.csv''"
    "type d = ''pandas_read_csv'' \<or> type d = ''dataset_urls''"
  shows "classify_reference env i d = Inr local_file_class"
  using assms
  by (auto simp: classify_reference_def local_data_csv_facts local_file_class_def)

lemma scan_text_b:
  assumes "eligible root_parts node" "content node = Some text_b"
  shows "scan_repository env [node] (init root_parts) =
           \<lparr>root_dir = root_parts,
            datasets_found =
              [\<lparr>type = ''pandas_read_csv'', reference = ''local/data.csv'',
                rel_file = rel_str (rel_parts node), found_at = clock env 0,
                licence = None, licence_source = None, licence_notes = None,
                risk_flag = None\<rparr>,
               \<lparr>type = ''dataset_urls'', reference = ''local/data.csv'',
                rel_file = rel_str (rel_parts node), found_at = clock env 1,
                licence = None, licence_source = None, licence_notes = None,
                risk_flag = None\<rparr>],
            ticks = 2\<rparr>"
  using assms
  by (simp add: scan_repository_def init_def scan_file_def patterns_def findall_text_b
        scan_match_def normalise_def local_data_csv_facts dedup_key_def Let_def)

text \<open>
  C1. The claim as the specification states it fails: the text matches the
  tabular-read pattern and the pattern for quoted data-file literals, and the key of
  the dedup holds the kind, so the scan keeps two references.
\<close>

theorem scenario_b_counterexample:
  "map kind_value
     (datasets_found (final_state (scan_and_enrich env_offline [] (one_file text_b)))) =
     [(''pandas_read_csv'', ''local/data.csv''), (''dataset_urls'', ''local/data.csv'')]
   \<and> length (datasets_found (final_state (scan_and_enrich env_offline [] (one_file text_b))))
       \<noteq> 1"
  by code_simp

text \<open>
  C1, amended. For an eligible file whose whole text is
  \<^verbatim>\<open>pd.read_csv("local/data.csv")\<close>, scan and enrichment return, with exactly two
  references in this order: one of kind \<open>pandas_read_csv\<close> and one of kind
  \<open>dataset_urls\<close>, both with value \<open>local/data.csv\<close> and the file as origin, both
  classified by the local-file branch: licence \<open>Proprietary/Project-internal\<close>, source
  \<open>heuristic\<close>, risk \<open>review\<close>.
\<close>

theorem scenario_b_two_references:
  assumes "eligible root_parts node" "content node = Some text_b"
  shows "scan_and_enrich env root_parts [node] =
           Inr \<lparr>root_dir = root_parts,
                datasets_found =
                  [\<lparr>type = ''pandas_read_csv'', reference = ''local/data.csv'',
                    rel_file = rel_str (rel_parts node), found_at = clock env 0,
                    licence = Some ''Proprietary/Project-internal'',
                    licence_source = Some ''heuristic'',
                    licence_notes = Some ''Local file path in repo'',
                    risk_flag = Some ''review''\<rparr>,
                   \<lparr>type = ''dataset_urls'', reference = ''local/data.csv'',
                    rel_file = rel_str (rel_parts node), found_at = clock env 1,
                    licence = Some ''Proprietary/Project-internal'',
                    licence_source = Some ''heuristic'',
                    licence_notes = Some ''Local file path in repo'',
                    risk_flag = Some ''review''\<rparr>],
                ticks = 2\<rparr>"
  by (simp add: scan_and_enrich_def scan_text_b[OF assms] enrich_with_licences_def
        classify_local_data_csv set_classification_def local_file_class_def)

theorem scenario_b_two_references_witness:
  "eligible [] (hd (one_file text_b)) \<and> content (hd (one_file text_b)) = Some text_b
   \<and> scan_and_enrich env_offline [] [hd (one_file text_b)] =
       Inr \<lparr>root_dir = [],
            datasets_found =
              [\<lparr>type = ''pandas_read_csv'', reference = ''local/data.csv'',
                rel_file = rel_str (rel_parts (hd (one_file text_b))),
                found_at = clock env_offline 0,
                licence = Some ''Proprietary/Project-internal'',
                licence_source = Some ''heuristic'',
                licence_notes = Some ''Local file path in repo'',
                risk_flag = Some ''review''\<rparr>,
               \<lparr>type = ''dataset_urls'', reference = ''local/data.csv'',
                rel_file = rel_str (rel_parts (hd (one_file text_b))),
                found_at = clock env_offline 1,
                licence = Some ''Proprietary/Project-internal'',
                licence_source = Some ''heuristic'',
                licence_notes = Some ''Local file path in repo'',
                risk_flag = Some ''review''\<rparr>],
            ticks = 2\<rparr>"
proof -
  have e: "eligible [] (hd (one_file text_b))" by code_simp
  have c: "content (hd (one_file text_b)) = Some text_b" by (simp add: one_file_def)
  from scenario_b_two_references[OF e c, of env_offline] e c show ?thesis by simp
qed

section \<open>Facts about classification\<close>

lemma markers_lower: "k \<in> set all_markers \<Longrightarrow> py_lower k = k"
  by (auto simp: all_markers_def permissive_markers_def py_lower_def py_lower_char_def
        is_capital_def)

lemma py_lower_append: "py_lower (xs @ ys) = py_lower xs @ py_lower ys"
  by (simp add: py_lower_def)

lemma risk_low_iff:
  "risk_from_licence l = ''low'' \<longleftrightarrow> (\<exists>k \<in> set all_markers. py_in k (py_lower l))"
  by (auto simp: risk_from_licence_def all_markers_def list_ex_iff Let_def)

lemma risk_two_valued: "risk_from_licence l = ''low'' \<or> risk_from_licence l = ''review''"
  by (simp add: risk_from_licence_def Let_def)

text \<open>The source tag and the risk of every classification.\<close>

lemma classify_shape:
  assumes "classify_reference env i d = Inr (lic, src, note, risk)"
  shows "(src = ''huggingface_api'' \<or> src = ''heuristic'')
         \<and> (src = ''heuristic'' \<and> lic = ''Unknown'' \<longrightarrow> risk = ''review'')"
  using assms
  by (auto simp: classify_reference_def Let_def split: if_splits option.splits)

text \<open>In the hosted branch nothing raises.\<close>

lemma classify_hosted:
  assumes "hosted d" "reference d \<noteq> []"
  shows "classify_reference env i d =
           (case fetch_hf_license env i (hf_normalise (reference d)) of
              None \<Rightarrow> Inr (''Unknown'', ''heuristic'',
                           ''No license field found for '' @ [SQ] @ hf_normalise (reference d)
                           @ [SQ], ''review'')
            | Some lic \<Rightarrow>
                if lic = [] then
                  Inr (''Unknown'', ''heuristic'',
                       ''No license field found for '' @ [SQ] @ hf_normalise (reference d)
                       @ [SQ], ''review'')
                else Inr (lic, ''huggingface_api'',
                          ''License read from HF card for '' @ [SQ]
                          @ hf_normalise (reference d) @ [SQ], risk_from_licence lic))"
  using assms
  by (auto simp: classify_reference_def hosted_def Let_def split: option.splits)

lemma classify_hosted_empty:
  assumes "hosted d" "reference d = []"
  shows "classify_reference env i d =
           Inr (''Unknown'', ''heuristic'', ''Pattern matched but no license inference'',
                ''review'')"
proof -
  have "looks_like_url [] = False" by code_simp
  moreover have "list_ex (\<lambda>ext. endswith (py_lower []) ext) data_extensions = False"
    by code_simp
  ultimately show ?thesis using assms
    by (auto simp: classify_reference_def hosted_def Let_def)
qed

section \<open>Facts about the lists of scan and enrichment\<close>

lemma scan_match_unclassified:
  assumes "\<forall>d \<in> set (datasets_found sc). unclassified d"
  shows "\<forall>d \<in> set (datasets_found (final_state (scan_match env rel t m sc))). unclassified d"
  using assms
  by (auto simp: scan_match_def final_state_def Let_def unclassified_def split: sum.splits)

lemma scan_matches_unclassified:
  assumes "\<forall>d \<in> set (datasets_found sc). unclassified d"
  shows "\<forall>d \<in> set (datasets_found (final_state (scan_matches env rel t ms sc))). unclassified d"
  using assms
proof (induction ms arbitrary: sc)
  case Nil
  then show ?case by (simp add: final_state_def)
next
  case (Cons m ms)
  show ?case
  proof (cases "scan_match env rel t m sc")
    case (Inl x)
    with scan_match_unclassified[OF Cons.prems, of env rel t m] show ?thesis
      by (simp add: final_state_def)
  next
    case (Inr sc1)
    with scan_match_unclassified[OF Cons.prems, of env rel t m]
    have "\<forall>d \<in> set (datasets_found sc1). unclassified d" by (simp add: final_state_def)
    from Cons.IH[OF this] Inr show ?thesis by simp
  qed
qed

lemma scan_patterns_unclassified:
  assumes "\<forall>d \<in> set (datasets_found sc). unclassified d"
  shows "\<forall>d \<in> set (datasets_found (final_state (scan_patterns env rel s pats sc))).
           unclassified d"
  using assms
proof (induction pats arbitrary: sc)
  case Nil
  then show ?case by (simp add: final_state_def)
next
  case (Cons p pats)
  obtain t r where p: "p = (t, r)" by (cases p)
  show ?case
  proof (cases "scan_matches env rel t (findall r s) sc")
    case (Inl x)
    with scan_matches_unclassified[OF Cons.prems, of env rel t "findall r s"] p show ?thesis
      by (simp add: final_state_def)
  next
    case (Inr sc1)
    with scan_matches_unclassified[OF Cons.prems, of env rel t "findall r s"]
    have "\<forall>d \<in> set (datasets_found sc1). unclassified d" by (simp add: final_state_def)
    from Cons.IH[OF this] Inr p show ?thesis by simp
  qed
qed

lemma scan_nodes_unclassified:
  assumes "\<forall>d \<in> set (datasets_found sc). unclassified d"
  shows "\<forall>d \<in> set (datasets_found (scan_nodes env tree sc)). unclassified d"
  using assms
proof (induction tree arbitrary: sc)
  case Nil
  then show ?case by simp
next
  case (Cons node tree)
  have f: "\<forall>d \<in> set (datasets_found (final_state (scan_file env node patterns sc))).
             unclassified d"
    using scan_patterns_unclassified[OF Cons.prems] Cons.prems
    by (auto simp: scan_file_def final_state_def split: option.splits)
  show ?case
  proof (cases "eligible (root_dir sc) node")
    case False
    with Cons show ?thesis by simp
  next
    case True
    show ?thesis
    proof (cases "scan_file env node patterns sc")
      case (Inl x)
      obtain e sc1 where x: "x = (e, sc1)" by (cases x)
      from f Inl x have "\<forall>d \<in> set (datasets_found sc1). unclassified d"
        by (simp add: final_state_def)
      from Cons.IH[OF this] True Inl x show ?thesis by simp
    next
      case (Inr sc1)
      from f Inr have "\<forall>d \<in> set (datasets_found sc1). unclassified d"
        by (simp add: final_state_def)
      from Cons.IH[OF this] True Inr show ?thesis by simp
    qed
  qed
qed

lemma scan_repository_unclassified:
  "\<forall>d \<in> set (datasets_found (scan_repository env tree (init root_parts))). unclassified d"
  using scan_nodes_unclassified[of "init root_parts" env tree]
  by (simp add: scan_repository_def init_def)

text \<open>
  An entry of the list after the pass is an entry of the list before it, untouched,
  or such an entry with the four keys set from its classification.
\<close>

lemma enrich_from_cases:
  assumes "d' \<in> set (final_state (enrich_from env i ds))"
  shows "d' \<in> set ds
         \<or> (\<exists>d \<in> set ds. \<exists>j c. classify_reference env j d = Inr c
                                  \<and> d' = set_classification c d)"
  using assms
proof (induction ds arbitrary: i)
  case Nil
  then show ?case by (simp add: final_state_def)
next
  case (Cons d ds)
  show ?case
  proof (cases "classify_reference env i d")
    case (Inl e)
    with Cons.prems show ?thesis by (simp add: final_state_def)
  next
    case (Inr c)
    have "final_state (enrich_from env i (d # ds)) =
            set_classification c d # final_state (enrich_from env (Suc i) ds)"
      using Inr by (auto simp: final_state_def split: sum.splits prod.splits)
    with Cons.prems consider "d' = set_classification c d"
      | "d' \<in> set (final_state (enrich_from env (Suc i) ds))" by auto
    then show ?thesis
    proof cases
      case 1
      have "d \<in> set (d # ds)" by simp
      with 1 Inr show ?thesis by blast
    next
      case 2
      from Cons.IH[OF this] show ?thesis by (simp del: split_paired_Ex) blast
    qed
  qed
qed

section \<open>Claims on classification\<close>

text \<open>
  C3. Every reference of the list after scan and enrichment whose source is the
  heuristic tag and whose licence is \<open>Unknown\<close> has the risk \<open>review\<close>, and so has
  every result of \<open>_classify_reference\<close>; and every licence string whose lowercased
  text contains one of the permissive markers (the seven of line 188 and the two
  \<open>cc-by\<close> forms of line 190) gets the risk \<open>low\<close> from \<open>_risk_from_licence\<close>.
\<close>

theorem risk_monotonicity:
  "(\<forall>e \<in> set (datasets_found (final_state (scan_and_enrich env root_parts tree))).
      licence_source e = Some ''heuristic'' \<and> licence e = Some ''Unknown''
      \<longrightarrow> risk_flag e = Some ''review'')
   \<and> (classify_reference env i d = Inr (lic, src, note, risk)
        \<and> src = ''heuristic'' \<and> lic = ''Unknown'' \<longrightarrow> risk = ''review'')
   \<and> (k \<in> set all_markers \<and> py_in k (py_lower l) \<longrightarrow> risk_from_licence l = ''low'')"
proof -
  let ?sc = "scan_repository env tree (init root_parts)"
  have a: "risk_flag e = Some ''review''"
    if e: "e \<in> set (datasets_found (final_state (scan_and_enrich env root_parts tree)))"
      and h: "licence_source e = Some ''heuristic''" "licence e = Some ''Unknown''"
    for e
  proof -
    from e have "e \<in> set (final_state (enrich_from env 0 (datasets_found ?sc)))"
      by (simp add: scan_and_enrich_def enrich_with_licences_found)
    from enrich_from_cases[OF this] consider "e \<in> set (datasets_found ?sc)"
      | d0 j c where "d0 \<in> set (datasets_found ?sc)" "classify_reference env j d0 = Inr c"
          "e = set_classification c d0"
      by blast
    then show ?thesis
    proof cases
      case 1
      with scan_repository_unclassified[of env tree root_parts] have "unclassified e" by blast
      with h show ?thesis by (simp add: unclassified_def)
    next
      case 2
      obtain l0 s0 n0 r0 where c: "c = (l0, s0, n0, r0)" by (cases c)
      from 2(3) c h have "s0 = ''heuristic''" "l0 = ''Unknown''"
        by (simp_all add: set_classification_def)
      with classify_shape[of env j d0 l0 s0 n0 r0] 2(2) c have "r0 = ''review''" by simp
      with 2(3) c show ?thesis by (simp add: set_classification_def)
    qed
  qed
  have b: "risk = ''review''"
    if "classify_reference env i d = Inr (lic, src, note, risk)" "src = ''heuristic''"
      "lic = ''Unknown''"
    using classify_shape[OF that(1)] that(2,3) by simp
  have c: "risk_from_licence l = ''low''" if "k \<in> set all_markers" "py_in k (py_lower l)"
    using that risk_low_iff by blast
  from a b c show ?thesis by blast
qed

theorem risk_monotonicity_witness:
  "entry_org_name_unknown
     \<in> set (datasets_found (final_state (scan_and_enrich env_offline [] tree_c)))
   \<and> licence_source entry_org_name_unknown = Some ''heuristic''
   \<and> licence entry_org_name_unknown = Some ''Unknown''
   \<and> risk_flag entry_org_name_unknown = Some ''review''
   \<and> ''apache'' \<in> set all_markers \<and> py_in ''apache'' (py_lower ''Apache-2.0'')
   \<and> risk_from_licence ''Apache-2.0'' = ''low''"
proof -
  have m: "entry_org_name_unknown
             \<in> set (datasets_found (final_state (scan_and_enrich env_offline [] tree_c)))"
    by code_simp
  have s: "licence_source entry_org_name_unknown = Some ''heuristic''"
    "licence entry_org_name_unknown = Some ''Unknown''"
    by (simp_all add: entry_org_name_unknown_def)
  have k: "''apache'' \<in> set all_markers" by (simp add: all_markers_def permissive_markers_def)
  have p: "py_in ''apache'' (py_lower ''Apache-2.0'')" by code_simp
  from risk_monotonicity[of env_offline "[]" tree_c _ _ _ _ _ _ "''apache''" "''Apache-2.0''"]
    m s k p
  show ?thesis by blast
qed

text \<open>
  C9. \<open>_risk_from_licence\<close> gives \<open>low\<close> exactly when the lowercased licence text
  contains one of the nine markers as a contiguous run, anywhere; so a licence string
  that contains a marker as written gets \<open>low\<close> too, also inside another word, as
  \<open>mit\<close> in \<open>Limited\<close>.
\<close>

theorem risk_is_substring_test:
  "(risk_from_licence l = ''low''
      \<longleftrightarrow> (\<exists>k \<in> set all_markers. \<exists>pre post. py_lower l = pre @ k @ post))
   \<and> (k \<in> set all_markers \<and> l = pre @ k @ post \<longrightarrow> risk_from_licence l = ''low'')
   \<and> all_markers = [''cc0'', ''public domain'', ''open government'', ''odc'', ''apache'',
                     ''mit'', ''bsd'', ''cc-by'', ''cc by'']"
proof -
  have a: "risk_from_licence l = ''low''
             \<longleftrightarrow> (\<exists>k \<in> set all_markers. \<exists>pre post. py_lower l = pre @ k @ post)"
    by (simp only: risk_low_iff py_in_iff)
  have b: "risk_from_licence l = ''low''" if "k \<in> set all_markers" "l = pre @ k @ post"
  proof -
    from that have "py_lower l = py_lower pre @ k @ py_lower post"
      by (simp add: py_lower_append markers_lower)
    with that(1) a show ?thesis by blast
  qed
  have c: "all_markers = [''cc0'', ''public domain'', ''open government'', ''odc'',
                          ''apache'', ''mit'', ''bsd'', ''cc-by'', ''cc by'']"
    by (simp add: all_markers_def permissive_markers_def)
  from a b c show ?thesis by blast
qed

theorem risk_is_substring_test_witness:
  "''mit'' \<in> set all_markers \<and> ''Limited'' = ''Li'' @ ''mit'' @ ''ed''
   \<and> risk_from_licence ''Limited'' = ''low''"
proof -
  have k: "''mit'' \<in> set all_markers" by (simp add: all_markers_def permissive_markers_def)
  have e: "''Limited'' = ''Li'' @ ''mit'' @ ''ed''" by simp
  from risk_is_substring_test[of "''Limited''" "''mit''" "''Li''" "''ed''"] k e
  show ?thesis by blast
qed

lemma enrich_from_head:
  assumes "classify_reference env i d = Inr c"
  shows "final_state (enrich_from env i (d # ds)) =
           set_classification c d # final_state (enrich_from env (Suc i) ds)"
  using assms by (auto simp: final_state_def split: sum.splits prod.splits)

lemma first_of_licenses_falsy: "\<not> truthy ls \<Longrightarrow> first_of_licenses ls lic = lic"
  by (cases ls) (auto simp: first_of_licenses_def split: list.splits json.splits)

text \<open>
  C4. For every reference of a hosted kind (\<open>huggingface_load_dataset\<close> or
  \<open>huggingface_datasets\<close>), classification returns and never raises; when the lookup
  gives no licence, the result is licence \<open>Unknown\<close>, source \<open>heuristic\<close>, risk
  \<open>review\<close>, and the enrichment pass sets these on the reference and goes on. The
  lookup gives no licence when the request fails (network error, timeout, HTTP error,
  a body that is not JSON), when the body is not a JSON object, when it has no
  \<open>cardData\<close>, and when \<open>license\<close> and \<open>licenses\<close> are missing or empty.
\<close>

theorem lookup_failure_falls_back:
  "(hosted d \<longrightarrow> (\<exists>c. classify_reference env i d = Inr c))
   \<and> (hosted d \<and> fetch_hf_license env i (hf_normalise (reference d)) = None
      \<longrightarrow> (\<exists>note. classify_reference env i d = Inr (''Unknown'', ''heuristic'', note, ''review'')
               \<and> final_state (enrich_from env i (d # ds)) =
                   d\<lparr>licence := Some ''Unknown'', licence_source := Some ''heuristic'',
                     licence_notes := Some note, risk_flag := Some ''review''\<rparr>
                   # final_state (enrich_from env (Suc i) ds)))
   \<and> (http_get env i (api_url h) = Failed \<longrightarrow> fetch_hf_license env i h = None)
   \<and> (http_get env i (api_url h) = Body data \<and> \<not> is_dict data
      \<longrightarrow> fetch_hf_license env i h = None)
   \<and> (http_get env i (api_url h) = Body (JDict kvs) \<and> map_of kvs ''cardData'' = None
      \<longrightarrow> fetch_hf_license env i h = None)
   \<and> (http_get env i (api_url h) = Body (JDict kvs)
        \<and> map_of kvs ''cardData'' = Some (JDict card_d)
        \<and> \<not> truthy (dict_get card_d ''license'') \<and> \<not> truthy (dict_get card_d ''licenses'')
      \<longrightarrow> fetch_hf_license env i h = None)"
proof -
  have a: "\<exists>c. classify_reference env i d = Inr c" if "hosted d"
  proof (cases "reference d = []")
    case True
    with classify_hosted_empty[OF that] show ?thesis by blast
  next
    case False
    from classify_hosted[OF that False, of env i] show ?thesis
      by (auto split: option.splits)
  qed
  have b: "\<exists>note. classify_reference env i d = Inr (''Unknown'', ''heuristic'', note, ''review'')
               \<and> final_state (enrich_from env i (d # ds)) =
                   d\<lparr>licence := Some ''Unknown'', licence_source := Some ''heuristic'',
                     licence_notes := Some note, risk_flag := Some ''review''\<rparr>
                   # final_state (enrich_from env (Suc i) ds)"
    if "hosted d" "fetch_hf_license env i (hf_normalise (reference d)) = None"
  proof -
    have "\<exists>note. classify_reference env i d = Inr (''Unknown'', ''heuristic'', note, ''review'')"
    proof (cases "reference d = []")
      case True
      with classify_hosted_empty[OF that(1)] show ?thesis by blast
    next
      case False
      from classify_hosted[OF that(1) False, of env i] that(2) show ?thesis by simp
    qed
    then obtain nt where
      n: "classify_reference env i d = Inr (''Unknown'', ''heuristic'', nt, ''review'')"
      by blast
    from enrich_from_head[OF n, of ds] n show ?thesis
      by (auto simp: set_classification_def)
  qed
  have c: "fetch_hf_license env i h = None" if "http_get env i (api_url h) = Failed"
    using that by (simp add: fetch_hf_license_def api_url_def)
  have d: "fetch_hf_license env i h = None"
    if "http_get env i (api_url h) = Body data" "\<not> is_dict data"
    using that by (cases data) (simp_all add: fetch_hf_license_def api_url_def)
  have e: "fetch_hf_license env i h = None"
    if "http_get env i (api_url h) = Body (JDict kvs)" "map_of kvs ''cardData'' = None"
    using that
    by (simp add: fetch_hf_license_def api_url_def dict_get_def first_of_licenses_def)
  have f: "fetch_hf_license env i h = None"
    if "http_get env i (api_url h) = Body (JDict kvs)"
      "map_of kvs ''cardData'' = Some (JDict card_d)"
      "\<not> truthy (dict_get card_d ''license'')" "\<not> truthy (dict_get card_d ''licenses'')"
  proof (cases "card_d = []")
    case True
    with that show ?thesis
      by (simp add: fetch_hf_license_def api_url_def dict_get_def first_of_licenses_def)
  next
    case False
    with that first_of_licenses_falsy[OF that(4)] show ?thesis
      by (simp add: fetch_hf_license_def api_url_def dict_get_def[of kvs] Let_def)
  qed
  from a b c d e f show ?thesis by blast
qed

theorem lookup_failure_falls_back_witness:
  "hosted entry_org_name
   \<and> http_get env_offline 0 (api_url (hf_normalise (reference entry_org_name))) = Failed
   \<and> fetch_hf_license env_offline 0 (hf_normalise (reference entry_org_name)) = None
   \<and> (\<exists>note. classify_reference env_offline 0 entry_org_name =
                Inr (''Unknown'', ''heuristic'', note, ''review''))
   \<and> datasets_found (final_state (scan_and_enrich env_offline [] tree_c)) =
       [entry_org_name_unknown]"
proof -
  have h: "hosted entry_org_name" by (simp add: hosted_def entry_org_name_def)
  have g: "http_get env_offline 0 (api_url (hf_normalise (reference entry_org_name))) = Failed"
    by (simp add: env_offline_def)
  have p: "datasets_found (final_state (scan_and_enrich env_offline [] tree_c)) =
             [entry_org_name_unknown]"
    by code_simp
  from lookup_failure_falls_back[of entry_org_name env_offline 0 "[]"
         "hf_normalise (reference entry_org_name)"] h g
  have "fetch_hf_license env_offline 0 (hf_normalise (reference entry_org_name)) = None" by blast
  with lookup_failure_falls_back[of entry_org_name env_offline 0 "[]"
         "hf_normalise (reference entry_org_name)"] h g p
  show ?thesis by blast
qed

text \<open>
  C5. For every reference of a hosted kind with a value that is not empty, when the
  lookup gives a licence string that is not empty, classification returns that
  licence, the source tag of the remote lookup (the string \<open>huggingface_api\<close> in the
  source), the note \<open>License read from HF card for '<identifier>'\<close>, and the risk that
  \<open>_risk_from_licence\<close> computes from the licence text (\<open>low\<close> for \<open>cc-by-4.0\<close>); the
  enrichment pass sets these four on the reference. A body with a \<open>cardData\<close> whose
  \<open>license\<close> is a string that is not empty is such a lookup. Every classification has
  one of the two source tags \<open>huggingface_api\<close> and \<open>heuristic\<close>.
\<close>

theorem lookup_success_is_remote:
  "(hosted d \<and> reference d \<noteq> []
      \<and> fetch_hf_license env i (hf_normalise (reference d)) = Some lic \<and> lic \<noteq> []
      \<longrightarrow> classify_reference env i d =
            Inr (lic, ''huggingface_api'',
                 ''License read from HF card for '' @ [SQ] @ hf_normalise (reference d) @ [SQ],
                 risk_from_licence lic)
          \<and> final_state (enrich_from env i (d # ds)) =
              d\<lparr>licence := Some lic, licence_source := Some ''huggingface_api'',
                licence_notes := Some (''License read from HF card for '' @ [SQ]
                                       @ hf_normalise (reference d) @ [SQ]),
                risk_flag := Some (risk_from_licence lic)\<rparr>
              # final_state (enrich_from env (Suc i) ds))
   \<and> (http_get env i (api_url h) = Body (JDict kvs)
        \<and> map_of kvs ''cardData'' = Some (JDict card_d)
        \<and> map_of card_d ''license'' = Some (JStr lic') \<and> lic' \<noteq> []
      \<longrightarrow> fetch_hf_license env i h = Some lic')
   \<and> (classify_reference env i d' = Inr (l, src, note, risk)
      \<longrightarrow> src = ''huggingface_api'' \<or> src = ''heuristic'')
   \<and> risk_from_licence ''cc-by-4.0'' = ''low''"
proof -
  have a: "classify_reference env i d =
            Inr (lic, ''huggingface_api'',
                 ''License read from HF card for '' @ [SQ] @ hf_normalise (reference d) @ [SQ],
                 risk_from_licence lic)
          \<and> final_state (enrich_from env i (d # ds)) =
              d\<lparr>licence := Some lic, licence_source := Some ''huggingface_api'',
                licence_notes := Some (''License read from HF card for '' @ [SQ]
                                       @ hf_normalise (reference d) @ [SQ]),
                risk_flag := Some (risk_from_licence lic)\<rparr>
              # final_state (enrich_from env (Suc i) ds)"
    if "hosted d" "reference d \<noteq> []"
      "fetch_hf_license env i (hf_normalise (reference d)) = Some lic" "lic \<noteq> []"
  proof -
    from classify_hosted[OF that(1,2), of env i] that(3,4)
    have c: "classify_reference env i d =
            Inr (lic, ''huggingface_api'',
                 ''License read from HF card for '' @ [SQ] @ hf_normalise (reference d) @ [SQ],
                 risk_from_licence lic)"
      by simp
    from enrich_from_head[OF c, of ds] c show ?thesis by (simp add: set_classification_def)
  qed
  have b: "fetch_hf_license env i h = Some lic'"
    if "http_get env i (api_url h) = Body (JDict kvs)"
      "map_of kvs ''cardData'' = Some (JDict card_d)"
      "map_of card_d ''license'' = Some (JStr lic')" "lic' \<noteq> []"
  proof -
    from that(3) have "card_d \<noteq> []" by auto
    with that show ?thesis
      by (simp add: fetch_hf_license_def api_url_def dict_get_def str_of_def Let_def)
  qed
  have c: "src = ''huggingface_api'' \<or> src = ''heuristic''"
    if "classify_reference env i d' = Inr (l, src, note, risk)"
    using classify_shape[OF that] by simp
  have d: "risk_from_licence ''cc-by-4.0'' = ''low''" by code_simp
  from a b c d show ?thesis by blast
qed

theorem lookup_success_is_remote_witness:
  "hosted entry_squad \<and> reference entry_squad \<noteq> []
   \<and> fetch_hf_license env_cc_by 0 (hf_normalise (reference entry_squad)) = Some ''cc-by-4.0''
   \<and> ''cc-by-4.0'' \<noteq> []
   \<and> classify_reference env_cc_by 0 entry_squad =
       Inr (''cc-by-4.0'', ''huggingface_api'',
            ''License read from HF card for '' @ [SQ] @ ''squad'' @ [SQ], ''low'')
   \<and> datasets_found (final_state (scan_and_enrich env_cc_by [] (one_file text_a))) =
       [entry_squad_cc_by]"
proof -
  have h: "hosted entry_squad" "reference entry_squad \<noteq> []"
    by (simp_all add: hosted_def entry_squad_def)
  have f: "fetch_hf_license env_cc_by 0 (hf_normalise (reference entry_squad)) =
             Some ''cc-by-4.0''"
    by code_simp
  have n: "hf_normalise (reference entry_squad) = ''squad''" by code_simp
  have p: "datasets_found (final_state (scan_and_enrich env_cc_by [] (one_file text_a))) =
             [entry_squad_cc_by]"
    by code_simp
  from lookup_success_is_remote[of entry_squad env_cc_by 0 "''cc-by-4.0''" "[]"] h f n p
  show ?thesis by simp
qed

section \<open>Claims on normalisation and on the denylist\<close>

text \<open>\<open>strip\<close> takes whitespace, and nothing else, from the two ends.\<close>

lemma py_strip_spec:
  "\<exists>a b. v = a @ py_strip v @ b \<and> (\<forall>c \<in> set a. py_isspace c) \<and> (\<forall>c \<in> set b. py_isspace c)
         \<and> (py_strip v \<noteq> [] \<longrightarrow> \<not> py_isspace (hd (py_strip v)) \<and> \<not> py_isspace (last (py_strip v)))"
proof -
  let ?w = "dropWhile py_isspace v"
  let ?a = "takeWhile py_isspace v"
  let ?b = "rev (takeWhile py_isspace (rev ?w))"
  have s: "py_strip v = rev (dropWhile py_isspace (rev ?w))" by (simp add: py_strip_def)
  have "py_strip v @ ?b =
          rev (takeWhile py_isspace (rev ?w) @ dropWhile py_isspace (rev ?w))"
    by (simp only: s rev_append)
  also have "\<dots> = rev (rev ?w)" by (simp only: takeWhile_dropWhile_id)
  finally have w: "?w = py_strip v @ ?b" by simp
  have v: "v = ?a @ py_strip v @ ?b" using w takeWhile_dropWhile_id[of py_isspace v] by simp
  have a: "\<forall>c \<in> set ?a. py_isspace c" by (auto dest: set_takeWhileD)
  have b: "\<forall>c \<in> set ?b. py_isspace c" by (auto dest: set_takeWhileD)
  have e: "\<not> py_isspace (hd (py_strip v)) \<and> \<not> py_isspace (last (py_strip v))"
    if ne: "py_strip v \<noteq> []"
  proof -
    from ne s have d: "dropWhile py_isspace (rev ?w) \<noteq> []" by simp
    have l: "last (py_strip v) = hd (dropWhile py_isspace (rev ?w))"
      using d by (simp add: s last_rev)
    have "\<not> py_isspace (hd (dropWhile py_isspace (rev ?w)))" using d by (rule hd_dropWhile)
    with l have 1: "\<not> py_isspace (last (py_strip v))" by simp
    from w ne have "?w \<noteq> []" by (metis Nil_is_append_conv)
    then have "\<not> py_isspace (hd ?w)" by (rule hd_dropWhile)
    moreover have "hd ?w = hd (py_strip v)" using w ne by (metis hd_append2)
    ultimately show ?thesis using 1 by simp
  qed
  from v a b e show ?thesis by blast
qed

text \<open>
  C6. A tuple match (a pattern with several groups) is reduced to its second group,
  the dataset path, under \<open>huggingface_datasets\<close>, where every match is a pair of
  protocol and path; under every other kind the groups are concatenated. The value
  that is tested at line 95 and stored in the new entry is the normalised match with
  the whitespace at its two ends removed.
\<close>

theorem normalisation_of_matches:
  "(1 < length gs \<longrightarrow> normalise ''huggingface_datasets'' (Tup gs) = Inr (gs ! 1))
   \<and> (m \<in> set (findall rx_hf_datasets s)
      \<longrightarrow> (\<exists>protocol path. m = Tup [protocol, path]
                            \<and> normalise ''huggingface_datasets'' m = Inr path))
   \<and> (t \<noteq> ''huggingface_datasets'' \<longrightarrow> normalise t (Tup gs) = Inr (concat gs))
   \<and> (normalise t' m' = Inr v \<and> scan_match env rel t' m' sc = Inr sc'
      \<longrightarrow> (rejected (py_strip v) \<longrightarrow> datasets_found sc' = datasets_found sc)
        \<and> (datasets_found sc' = datasets_found sc
           \<or> (\<exists>e. datasets_found sc' = datasets_found sc @ [e] \<and> type e = t'
                   \<and> reference e = py_strip v)))
   \<and> (\<exists>a b. v = a @ py_strip v @ b \<and> (\<forall>c \<in> set a. py_isspace c)
             \<and> (\<forall>c \<in> set b. py_isspace c)
             \<and> (py_strip v \<noteq> [] \<longrightarrow> \<not> py_isspace (hd (py_strip v))
                                     \<and> \<not> py_isspace (last (py_strip v))))"
proof -
  have a: "normalise ''huggingface_datasets'' (Tup gs) = Inr (gs ! 1)" if "1 < length gs"
    using that by (simp add: normalise_def)
  have b: "\<exists>protocol path. m = Tup [protocol, path]
                          \<and> normalise ''huggingface_datasets'' m = Inr path"
    if "m \<in> set (findall rx_hf_datasets s)"
  proof -
    from findall_two_groups[OF that ngroups_patterns(4)]
    obtain p q where "m = Tup [p, q]" by blast
    then show ?thesis by (simp add: normalise_def)
  qed
  have c: "normalise t (Tup gs) = Inr (concat gs)" if "t \<noteq> ''huggingface_datasets''"
    using that by (simp add: normalise_def)
  have d: "(rejected (py_strip v) \<longrightarrow> datasets_found sc' = datasets_found sc)
        \<and> (datasets_found sc' = datasets_found sc
           \<or> (\<exists>e. datasets_found sc' = datasets_found sc @ [e] \<and> type e = t'
                   \<and> reference e = py_strip v))"
    if "normalise t' m' = Inr v" "scan_match env rel t' m' sc = Inr sc'"
    using that by (auto simp: scan_match_def Let_def split: if_splits)
  from a b c d py_strip_spec[of v] show ?thesis by blast
qed

theorem normalisation_of_matches_witness:
  "1 < length [''https://'', ''org/name'']
   \<and> normalise ''huggingface_datasets'' (Tup [''https://'', ''org/name'']) = Inr ''org/name''
   \<and> findall rx_hf_datasets text_c = [Tup [''https://'', ''org/name'']]
   \<and> ''dataset_urls'' \<noteq> ''huggingface_datasets''
   \<and> normalise ''dataset_urls'' (Tup [''a'', ''b.csv'']) = Inr ''ab.csv''
   \<and> normalise ''huggingface_load_dataset'' (Str '' squad '') = Inr '' squad ''
   \<and> scan_match env_offline [''src'', ''load.py''] ''huggingface_load_dataset''
        (Str '' squad '') (init []) =
       Inr \<lparr>root_dir = [], datasets_found = [entry_squad], ticks = 1\<rparr>
   \<and> reference entry_squad = py_strip '' squad ''"
proof -
  have f: "findall rx_hf_datasets text_c = [Tup [''https://'', ''org/name'']]" by code_simp
  have n: "normalise ''huggingface_load_dataset'' (Str '' squad '') = Inr '' squad ''"
    by (simp add: normalise_def)
  have s: "scan_match env_offline [''src'', ''load.py''] ''huggingface_load_dataset''
             (Str '' squad '') (init []) =
           Inr \<lparr>root_dir = [], datasets_found = [entry_squad], ticks = 1\<rparr>"
    by code_simp
  have r: "reference entry_squad = py_strip '' squad ''" by code_simp
  from normalisation_of_matches[of "[''https://'', ''org/name'']" _ _ "''dataset_urls''"]
  have 1: "normalise ''huggingface_datasets'' (Tup [''https://'', ''org/name'']) = Inr ''org/name''"
    by simp
  from normalisation_of_matches[of "[''a'', ''b.csv'']" _ _ "''dataset_urls''"]
  have 2: "normalise ''dataset_urls'' (Tup [''a'', ''b.csv'']) = Inr ''ab.csv''"
    by simp
  from 1 2 f n s r show ?thesis by simp
qed

section \<open>Claims on the enrichment pass and on letter case\<close>

text \<open>
  The enrichment pass on every run: when it returns, every entry has the four
  classification keys; whether it returns or raises, the list keeps its length and
  order and every entry keeps its kind, value, origin file and timestamp.
\<close>

lemma enrich_from_returns_all:
  assumes "enrich_from env i ds = Inr ds'"
  shows "\<forall>e \<in> set ds'. licence e \<noteq> None \<and> licence_source e \<noteq> None
                        \<and> licence_notes e \<noteq> None \<and> risk_flag e \<noteq> None"
  using assms
proof (induction ds arbitrary: i ds')
  case Nil
  then show ?case by simp
next
  case (Cons d ds)
  from Cons.prems obtain c ds1 where c: "classify_reference env i d = Inr c"
    "enrich_from env (Suc i) ds = Inr ds1" "ds' = set_classification c d # ds1"
    by (auto split: sum.splits prod.splits)
  from Cons.IH[OF c(2)] c(3) show ?case
    by (cases c) (auto simp: set_classification_def)
qed

lemma enrichment_frame:
  "map identity_fields (datasets_found (final_state (enrich_with_licences env sc))) =
     map identity_fields (datasets_found sc)
   \<and> (enrich_with_licences env sc = Inr sc'
      \<longrightarrow> (\<forall>e \<in> set (datasets_found sc').
             licence e \<noteq> None \<and> licence_source e \<noteq> None
             \<and> licence_notes e \<noteq> None \<and> risk_flag e \<noteq> None))"
proof -
  have "\<forall>e \<in> set (datasets_found sc').
          licence e \<noteq> None \<and> licence_source e \<noteq> None
          \<and> licence_notes e \<noteq> None \<and> risk_flag e \<noteq> None"
    if "enrich_with_licences env sc = Inr sc'"
  proof -
    from that obtain ds' where "enrich_from env 0 (datasets_found sc) = Inr ds'"
      "datasets_found sc' = ds'"
      by (auto simp: enrich_with_licences_def split: sum.splits prod.splits)
    with enrich_from_returns_all[of env 0 "datasets_found sc" ds'] show ?thesis by simp
  qed
  with enrich_with_licences_identity[of env sc] show ?thesis by blast
qed

text \<open>
  C8 at the failing input. In every environment where \<open>urlparse\<close> raises
  \<open>ValueError\<close> on \<open>http://[bad\<close> (Python's does: the host part has an opening square
  bracket without the closing one), the scan of the file finds two references, and
  the enrichment pass raises at the first: no reference gets a classification key.
\<close>

theorem enrichment_aborts_on_bracket:
  assumes "netloc env ''http://[bad'' = None"
  shows "scan_and_enrich env [] (one_file text_bracket) =
           Inl (ValueError,
                \<lparr>root_dir = [],
                 datasets_found =
                   [entry_bracket\<lparr>found_at := clock env 0\<rparr>,
                    entry_local\<lparr>found_at := clock env 1\<rparr>],
                 ticks = 2\<rparr>)"
proof -
  have f: "findall rx_load_dataset text_bracket = []"
    "findall rx_read_csv text_bracket = [Str ''http://[bad'']"
    "findall rx_dataset_urls text_bracket = [Str ''local/data.csv'']"
    "findall rx_hf_datasets text_bracket = []"
    by code_simp+
  have e: "eligible [] \<lparr>rel_parts = [''src'', ''load.py''], is_dir = False,
                        content = Some text_bracket\<rparr>"
    by code_simp
  have v: "py_strip ''http://[bad'' = ''http://[bad''" "rejected ''http://[bad'' = False"
    "py_strip ''local/data.csv'' = ''local/data.csv''" "rejected ''local/data.csv'' = False"
    "rel_str [''src'', ''load.py''] = ''src/load.py''"
    "looks_like_url ''http://[bad'' = True"
    by code_simp+
  have s: "scan_repository env (one_file text_bracket) (init []) =
             \<lparr>root_dir = [],
              datasets_found = [entry_bracket\<lparr>found_at := clock env 0\<rparr>,
                                entry_local\<lparr>found_at := clock env 1\<rparr>],
              ticks = 2\<rparr>"
    using e
    by (simp add: scan_repository_def init_def one_file_def scan_file_def patterns_def f
          scan_match_def normalise_def v dedup_key_def Let_def entry_bracket_def
          entry_local_def)
  have c: "classify_reference env 0 (entry_bracket\<lparr>found_at := clock env 0\<rparr>) = Inl ValueError"
    using assms by (simp add: classify_reference_def entry_bracket_def v)
  show ?thesis
    by (simp add: scan_and_enrich_def s enrich_with_licences_def c)
qed

theorem enrichment_aborts_on_bracket_witness:
  "netloc env_offline ''http://[bad'' = None
   \<and> scan_and_enrich env_offline [] (one_file text_bracket) =
       Inl (ValueError,
            \<lparr>root_dir = [], datasets_found = [entry_bracket, entry_local], ticks = 2\<rparr>)"
proof -
  have n: "netloc env_offline ''http://[bad'' = None" by code_simp
  have a: "entry_bracket\<lparr>found_at := clock env_offline 0\<rparr> = entry_bracket"
    "entry_local\<lparr>found_at := clock env_offline 1\<rparr> = entry_local"
    by (simp_all add: entry_bracket_def entry_local_def env_offline_def)
  from enrichment_aborts_on_bracket[OF n] n a show ?thesis by simp
qed

lemma tokens_lower:
  "tok \<in> set GENERIC_TOKENS \<Longrightarrow> py_lower tok = tok \<and> 3 \<le> length tok"
  by (auto simp: GENERIC_TOKENS_def py_lower_def py_lower_char_def is_capital_def)

lemma keep_first_keeps:
  assumes "cand_key c \<notin> cand_key ` set acc" "\<forall>p \<in> set pre. cand_key p \<noteq> cand_key c"
  shows "c \<in> set (keep_first acc (pre @ c # post))"
  using assms
proof (induction pre arbitrary: acc)
  case Nil
  have "c \<in> set (acc @ [c])" by simp
  with keep_first_acc[of "acc @ [c]" post] have "c \<in> set (keep_first (acc @ [c]) post)"
    by blast
  with Nil show ?case by simp
next
  case (Cons x pre)
  from Cons.prems have x: "cand_key x \<noteq> cand_key c" "\<forall>p \<in> set pre. cand_key p \<noteq> cand_key c"
    by simp_all
  show ?case
  proof (cases "cand_key x \<in> cand_key ` set acc")
    case True
    with Cons.IH[OF Cons.prems(1) x(2)] show ?thesis by simp
  next
    case False
    from Cons.prems(1) x(1) have "cand_key c \<notin> cand_key ` set (acc @ [x])" by auto
    from Cons.IH[OF this x(2)] False show ?thesis by simp
  qed
qed

lemma tree_cands_member:
  assumes "node \<in> set tree" "eligible root_parts node" "content node = Some s"
    "(t, r) \<in> set patterns" "m \<in> set (findall r s)" "normalise t m = Inr raw"
    "\<not> rejected (py_strip raw)"
  shows "(t, py_strip raw, rel_str (rel_parts node)) \<in> set (tree_cands root_parts tree)"
proof -
  have 1: "(t, py_strip raw, rel_str (rel_parts node))
             \<in> set (match_cands (rel_str (rel_parts node)) t m)"
    using assms(6,7) by (simp add: match_cands_def)
  have 2: "(t, py_strip raw, rel_str (rel_parts node))
             \<in> set (text_cands (rel_str (rel_parts node)) s patterns)"
    unfolding text_cands_def using 1 assms(4,5) by fastforce
  have 3: "(t, py_strip raw, rel_str (rel_parts node)) \<in> set (file_cands node)"
    using 2 assms(3) by (simp add: file_cands_def)
  show ?thesis unfolding tree_cands_def using 3 assms(1,2) by auto
qed

text \<open>
  C10. The claim as stated fails: in \<^verbatim>\<open>load_dataset("NAME") load_dataset("Name")\<close>
  the second argument is captured, differs from the generic token \<open>name\<close> by letter
  case only and passes the test of line 95, but the dedup, which lowercases, drops it
  for the first one: \<open>Name\<close> is not a reference of the final list.
\<close>

theorem denylist_case_counterexample:
  "findall rx_load_dataset text_case = [Str ''NAME'', Str ''Name'']
   \<and> py_lower ''Name'' = py_lower ''name'' \<and> ''name'' \<in> set GENERIC_TOKENS
   \<and> \<not> rejected (py_strip ''Name'')
   \<and> map kind_value
        (datasets_found (final_state (scan_and_enrich env_offline [] (one_file text_case)))) =
       [(''huggingface_load_dataset'', ''NAME'')]"
  by code_simp

text \<open>
  C10, amended. The test against the generic tokens is case-sensitive, pattern
  matching and dedup are not: a captured value of an eligible file that differs from
  a generic token by letter case only passes the filter and is a candidate. It
  becomes a reference of the final list, with its file as origin, when no earlier
  candidate has the same kind and lowercased value; in every case the final list has
  a reference of that kind whose lowercased value is the same.
\<close>

theorem denylist_is_case_sensitive:
  assumes "node \<in> set tree" "eligible root_parts node" "content node = Some s"
    "(t, r) \<in> set patterns" "m \<in> set (findall r s)" "normalise t m = Inr raw"
    "tok \<in> set GENERIC_TOKENS" "py_lower (py_strip raw) = py_lower tok" "py_strip raw \<noteq> tok"
  shows "\<not> rejected (py_strip raw)
     \<and> (t, py_strip raw, rel_str (rel_parts node)) \<in> set (tree_cands root_parts tree)
     \<and> (\<exists>d \<in> set (datasets_found (final_state (scan_and_enrich env root_parts tree))).
           type d = t \<and> py_lower (reference d) = py_lower (py_strip raw))
     \<and> ((\<exists>pre post. tree_cands root_parts tree =
                       pre @ (t, py_strip raw, rel_str (rel_parts node)) # post
                     \<and> (\<forall>p \<in> set pre. cand_key p \<noteq> (t, py_lower (py_strip raw))))
        \<longrightarrow> (\<exists>d \<in> set (datasets_found (final_state (scan_and_enrich env root_parts tree))).
               type d = t \<and> reference d = py_strip raw
               \<and> rel_file d = rel_str (rel_parts node)))"
proof -
  let ?v = "py_strip raw"
  let ?c = "(t, ?v, rel_str (rel_parts node))"
  let ?out = "datasets_found (final_state (scan_and_enrich env root_parts tree))"
  let ?cs = "tree_cands root_parts tree"
  have tl: "py_lower tok = tok" "3 \<le> length tok" using tokens_lower[OF assms(7)] by simp_all
  have len: "length ?v = length tok"
  proof -
    have "length (py_lower ?v) = length (py_lower tok)" using assms(8) by simp
    then show ?thesis by (simp add: py_lower_def)
  qed
  have notin: "?v \<notin> set GENERIC_TOKENS"
  proof
    assume "?v \<in> set GENERIC_TOKENS"
    then have "py_lower ?v = ?v" using tokens_lower by blast
    with assms(8) tl(1) have "?v = tok" by simp
    with assms(9) show False by simp
  qed
  have a: "\<not> rejected ?v" using len tl(2) notin by (auto simp: rejected_def)
  have b: "?c \<in> set ?cs" using tree_cands_member[OF assms(1-6) a] .
  have out: "map ident ?out = keep_first [] ?cs" by (rule scan_and_enrich_refines)
  have c: "\<exists>d \<in> set ?out. type d = t \<and> py_lower (reference d) = py_lower ?v"
  proof -
    from keep_first_covers[OF b, of "[]"]
    have "cand_key ?c \<in> cand_key ` set (map ident ?out)" by (simp only: out)
    then obtain d where "d \<in> set ?out" "cand_key (ident d) = cand_key ?c" by auto
    then show ?thesis by (auto simp: cand_key_def ident_def)
  qed
  have d: "\<exists>d \<in> set ?out. type d = t \<and> reference d = ?v \<and> rel_file d = rel_str (rel_parts node)"
    if "\<exists>pre post. ?cs = pre @ ?c # post \<and> (\<forall>p \<in> set pre. cand_key p \<noteq> (t, py_lower ?v))"
  proof -
    from that obtain pre post where pp: "?cs = pre @ ?c # post"
      "\<forall>p \<in> set pre. cand_key p \<noteq> (t, py_lower ?v)" by blast
    have k: "cand_key ?c = (t, py_lower ?v)" by (simp add: cand_key_def)
    have "?c \<in> set (keep_first [] (pre @ ?c # post))"
      by (rule keep_first_keeps) (simp_all add: k pp(2))
    then have "?c \<in> set (map ident ?out)" by (simp only: out pp(1))
    then obtain d where "d \<in> set ?out" "ident d = ?c" by auto
    then show ?thesis by (auto simp: ident_def)
  qed
  from a b c d show ?thesis by blast
qed

theorem denylist_is_case_sensitive_witness:
  "hd (one_file text_upper) \<in> set (one_file text_upper)
   \<and> eligible [] (hd (one_file text_upper))
   \<and> content (hd (one_file text_upper)) = Some text_upper
   \<and> (''dataset_urls'', rx_dataset_urls) \<in> set patterns
   \<and> Str ''.CSV'' \<in> set (findall rx_dataset_urls text_upper)
   \<and> normalise ''dataset_urls'' (Str ''.CSV'') = Inr ''.CSV''
   \<and> ''.csv'' \<in> set GENERIC_TOKENS
   \<and> py_lower (py_strip ''.CSV'') = py_lower ''.csv'' \<and> py_strip ''.CSV'' \<noteq> ''.csv''
   \<and> \<not> rejected (py_strip ''.CSV'')
   \<and> (''dataset_urls'', py_strip ''.CSV'', rel_str (rel_parts (hd (one_file text_upper))))
       \<in> set (tree_cands [] (one_file text_upper))
   \<and> map kind_value
        (datasets_found (final_state (scan_and_enrich env_offline [] (one_file text_upper)))) =
       [(''dataset_urls'', ''.CSV'')]"
proof -
  have 1: "hd (one_file text_upper) \<in> set (one_file text_upper)" by (simp add: one_file_def)
  have 2: "eligible [] (hd (one_file text_upper))" by code_simp
  have 3: "content (hd (one_file text_upper)) = Some text_upper" by (simp add: one_file_def)
  have 4: "(''dataset_urls'', rx_dataset_urls) \<in> set patterns" by (simp add: patterns_def)
  have 5: "Str ''.CSV'' \<in> set (findall rx_dataset_urls text_upper)" by code_simp
  have 6: "normalise ''dataset_urls'' (Str ''.CSV'') = Inr ''.CSV''" by (simp add: normalise_def)
  have 7: "''.csv'' \<in> set GENERIC_TOKENS" by (simp add: GENERIC_TOKENS_def)
  have 8: "py_lower (py_strip ''.CSV'') = py_lower ''.csv''" by code_simp
  have 9: "py_strip ''.CSV'' \<noteq> ''.csv''" by code_simp
  have 10: "map kind_value
        (datasets_found (final_state (scan_and_enrich env_offline [] (one_file text_upper)))) =
       [(''dataset_urls'', ''.CSV'')]"
    by code_simp
  from denylist_is_case_sensitive[OF 1 2 3 4 5 6 7 8 9, of env_offline] 1 2 3 4 5 6 7 8 9 10
  show ?thesis by blast
qed

end
